theory Spec2Isabelle
  imports Main "HOL-Library.Word" "HOL-Library.Log_Nat" "HOL-Library.Sublist"
begin

section \<open>JavaScript strings\<close>

text \<open>
  A JavaScript string is a sequence of 16-bit code units. String literals of the source are
  written \<open>js ''...''\<close>.
\<close>

type_synonym jschar = "16 word"
type_synonym jsstring = "jschar list"

definition js :: "string \<Rightarrow> jsstring" where
  "js s = map of_char s"

text \<open>
  The characters that \<open>String.prototype.trim\<close>, the regular expression class \<open>\s\<close> and
  the string-to-number conversion treat as white space: the WhiteSpace and LineTerminator
  productions of ECMAScript (TAB, LF, VT, FF, CR, SP, NBSP, the Unicode space separators,
  LS, PS and the byte order mark).
\<close>

definition isWhiteSpace :: "jschar \<Rightarrow> bool" where
  "isWhiteSpace c \<longleftrightarrow>
     c = 0x09 \<or> c = 0x0A \<or> c = 0x0B \<or> c = 0x0C \<or> c = 0x0D \<or> c = 0x20 \<or> c = 0xA0 \<or>
     c = 0x1680 \<or> (0x2000 \<le> c \<and> c \<le> 0x200A) \<or> c = 0x2028 \<or> c = 0x2029 \<or>
     c = 0x202F \<or> c = 0x205F \<or> c = 0x3000 \<or> c = 0xFEFF"

definition trim :: "jsstring \<Rightarrow> jsstring" where
  "trim s = rev (dropWhile isWhiteSpace (rev (dropWhile isWhiteSpace s)))"

text \<open>
  \<open>s.split(sep)\<close> for a separator of one code unit: the pieces between the separators, in
  order; the result always has at least one element (\<open>"".split(sep)\<close> is \<open>[""]\<close>), so the
  last case below is never taken.
\<close>

fun split :: "jschar \<Rightarrow> jsstring \<Rightarrow> jsstring list" where
  "split sep [] = [[]]"
| "split sep (c # cs) =
     (if c = sep then [] # split sep cs
      else case split sep cs of
             piece # pieces \<Rightarrow> (c # piece) # pieces
           | [] \<Rightarrow> [[c]])"

text \<open>
  Reading an array at an index: \<open>None\<close> stands for \<open>undefined\<close>, the value of a read past
  the end.
\<close>

definition array_at :: "'a list \<Rightarrow> nat \<Rightarrow> 'a option" where
  "array_at xs i = (if i < length xs then Some (xs ! i) else None)"

section \<open>Numbers\<close>

text \<open>
  The Number values that can arise here: NaN, the two infinities and the finite doubles, each
  finite double given by its exact rational value. The two zeros are identified: no
  operation of the program tells them apart.
\<close>

datatype number = NaN | NegInf | Finite rat | PosInf

text \<open>The relational operator \<open><\<close> on Number values; \<open>a > b\<close> is \<open>b < a\<close>.\<close>

fun js_less :: "number \<Rightarrow> number \<Rightarrow> bool" where
  "js_less NaN y = False"
| "js_less x NaN = False"
| "js_less (Finite a) (Finite b) = (a < b)"
| "js_less NegInf y = (y \<noteq> NegInf)"
| "js_less x PosInf = (x \<noteq> PosInf)"
| "js_less x y = False"

text \<open>ToNumber on what an array read returns: \<open>undefined\<close> becomes NaN.\<close>

definition ToNumber :: "number option \<Rightarrow> number" where
  "ToNumber v = (case v of None \<Rightarrow> NaN | Some x \<Rightarrow> x)"

definition js_gt :: "number option \<Rightarrow> number option \<Rightarrow> bool" where
  "js_gt a b = js_less (ToNumber b) (ToNumber a)"

definition js_lt :: "number option \<Rightarrow> number option \<Rightarrow> bool" where
  "js_lt a b = js_less (ToNumber a) (ToNumber b)"

subsection \<open>Rounding to a double\<close>

text \<open>
  \<open>ilog2 n d\<close> is the integer part of the binary logarithm of the positive fraction
  \<open>n / d\<close>.
\<close>

definition ilog2 :: "int \<Rightarrow> int \<Rightarrow> int" where
  "ilog2 n d =
     (let k = bitlen n - bitlen d
      in if d * 2 ^ nat k \<le> n * 2 ^ nat (- k) then k else k - 1)"

text \<open>The integer nearest to \<open>n / d\<close>, a tie going to the even neighbour.\<close>

definition round_half_even :: "int \<Rightarrow> int \<Rightarrow> int" where
  "round_half_even n d =
     (let q = n div d; r = n mod d
      in if 2 * r < d then q
         else if d < 2 * r then q + 1
         else if even q then q else q + 1)"

text \<open>
  The double nearest to the non-negative fraction \<open>n / d\<close> (round to nearest, ties to even):
  53 significant bits, the exponent of the last bit no smaller than \<open>-1074\<close>, and infinity
  from \<open>2 ^ 1024\<close> on.
\<close>

definition to_double :: "int \<Rightarrow> int \<Rightarrow> number" where
  "to_double n d =
     (if n = 0 then Finite 0
      else let e = max (ilog2 n d - 52) (- 1074);
               m = round_half_even (n * 2 ^ nat (- e)) (d * 2 ^ nat e)
           in if 1024 < bitlen m + e then PosInf
              else Finite (of_int m * 2 powi e))"

definition negate :: "number \<Rightarrow> number" where
  "negate x = (case x of NaN \<Rightarrow> NaN | NegInf \<Rightarrow> PosInf | PosInf \<Rightarrow> NegInf
               | Finite a \<Rightarrow> Finite (- a))"

subsection \<open>String to number\<close>

text \<open>The value of a digit in a radix up to 36, if the code unit is one.\<close>

definition digit_of :: "jschar \<Rightarrow> int option" where
  "digit_of c =
     (if 0x30 \<le> c \<and> c \<le> 0x39 then Some (uint c - 0x30)
      else if 0x61 \<le> c \<and> c \<le> 0x7A then Some (uint c - 0x61 + 10)
      else if 0x41 \<le> c \<and> c \<le> 0x5A then Some (uint c - 0x41 + 10)
      else None)"

definition is_digit :: "int \<Rightarrow> jschar \<Rightarrow> bool" where
  "is_digit radix c = (case digit_of c of None \<Rightarrow> False | Some v \<Rightarrow> v < radix)"

definition digits_value :: "int \<Rightarrow> jsstring \<Rightarrow> int" where
  "digits_value radix ds =
     foldl (\<lambda>a c. radix * a + (case digit_of c of None \<Rightarrow> 0 | Some v \<Rightarrow> v)) 0 ds"

text \<open>
  ExponentPart of a decimal literal: empty, or \<open>e\<close> or \<open>E\<close>, an optional sign and at
  least one decimal digit. \<open>None\<close> when the text is not an exponent part.
\<close>

definition exponent_part :: "jsstring \<Rightarrow> int option" where
  "exponent_part s =
     (case s of
        [] \<Rightarrow> Some 0
      | c # r \<Rightarrow>
          if c = 0x65 \<or> c = 0x45 then
            (let neg = (r \<noteq> [] \<and> hd r = 0x2D);
                 ds = (if r \<noteq> [] \<and> (hd r = 0x2B \<or> hd r = 0x2D) then tl r else r)
             in if ds \<noteq> [] \<and> list_all (is_digit 10) ds
                then Some (if neg then - digits_value 10 ds else digits_value 10 ds)
                else None)
          else None)"

text \<open>
  StrUnsignedDecimalLiteral: \<open>Infinity\<close>, or digits with an optional fraction and an optional
  exponent part, at least one digit before or after the point.
\<close>

definition unsigned_decimal :: "jsstring \<Rightarrow> number" where
  "unsigned_decimal s =
     (if s = js ''Infinity'' then PosInf
      else let ip = takeWhile (is_digit 10) s;
               r1 = dropWhile (is_digit 10) s;
               dot = (r1 \<noteq> [] \<and> hd r1 = 0x2E);
               fp = (if dot then takeWhile (is_digit 10) (tl r1) else []);
               r2 = (if dot then dropWhile (is_digit 10) (tl r1) else r1)
           in if ip = [] \<and> fp = [] then NaN
              else case exponent_part r2 of
                     None \<Rightarrow> NaN
                   | Some x \<Rightarrow>
                       (let k = x - int (length fp)
                        in to_double (digits_value 10 (ip @ fp) * 10 ^ nat k) (10 ^ nat (- k))))"

text \<open>
  NonDecimalIntegerLiteral: \<open>0x\<close>, \<open>0o\<close> or \<open>0b\<close> (in either case) and at least one digit of
  that radix; \<open>None\<close> when the text has no such prefix.
\<close>

definition radix_prefix :: "jsstring \<Rightarrow> int option" where
  "radix_prefix s =
     (case s of
        c0 # c1 # _ \<Rightarrow>
          if c0 \<noteq> 0x30 then None
          else if c1 = 0x78 \<or> c1 = 0x58 then Some 16
          else if c1 = 0x6F \<or> c1 = 0x4F then Some 8
          else if c1 = 0x62 \<or> c1 = 0x42 then Some 2
          else None
      | _ \<Rightarrow> None)"

text \<open>
  \<open>Number(s)\<close> for a string \<open>s\<close>: white space is trimmed from both ends, the empty text is
  zero, text that is not a numeric literal is NaN, and the mathematical value of a literal
  is rounded to the nearest double.
\<close>

definition Number :: "jsstring \<Rightarrow> number" where
  "Number s =
     (let t = trim s
      in if t = [] then Finite 0
         else case radix_prefix t of
                Some radix \<Rightarrow>
                  (let ds = drop 2 t
                   in if ds \<noteq> [] \<and> list_all (is_digit radix) ds
                      then to_double (digits_value radix ds) 1 else NaN)
              | None \<Rightarrow>
                  if hd t = 0x2B then unsigned_decimal (tl t)
                  else if hd t = 0x2D then negate (unsigned_decimal (tl t))
                  else unsigned_decimal t)"

section \<open>The version comparator\<close>

text \<open>
  The loop of \<open>compareVersions\<close> from index \<open>i\<close> on: the first component at which one of
  the two comparisons holds decides, and a loop that runs out returns false.
\<close>

function compareFrom :: "number list \<Rightarrow> number list \<Rightarrow> nat \<Rightarrow> bool" where
  "compareFrom currentParts latestParts i =
     (if i < 3 then
        (if js_gt (array_at latestParts i) (array_at currentParts i) then True
         else if js_lt (array_at latestParts i) (array_at currentParts i) then False
         else compareFrom currentParts latestParts (Suc i))
      else False)"
  by pat_completeness auto
termination
  by (relation "measure (\<lambda>(c, l, i). 3 - i)") auto

definition compareVersions :: "jsstring \<Rightarrow> jsstring \<Rightarrow> bool" where
  "compareVersions current latest =
     (if current = js ''unknown'' then True
      else let currentParts = map Number (split 0x2E current);
               latestParts = map Number (split 0x2E latest)
           in compareFrom currentParts latestParts 0)"

section \<open>The plugin list parser\<close>

text \<open>The field \<open>id\<close> of the source is \<open>plugin_id\<close> here.\<close>

record InstalledPlugin =
  plugin_id :: jsstring
  version :: jsstring

text \<open>\<open>line.replace(/^[>\s]+/, '')\<close>: the longest prefix of \<open>>\<close> and white space is removed.\<close>

definition cleanLine :: "jsstring \<Rightarrow> jsstring" where
  "cleanLine line = dropWhile (\<lambda>c. c = 0x3E \<or> isWhiteSpace c) line"

text \<open>
  The body of the \<open>map\<close> callback. The destructuring \<open>[id, version] = cleanLine.split(' ')\<close>
  reads the elements 0 and 1 of the array; element 0 is always there, element 1 may be
  \<open>undefined\<close>, and \<open>version || 'unknown'\<close> replaces \<open>undefined\<close> and the empty string.
\<close>

definition parseLine :: "jsstring \<Rightarrow> InstalledPlugin" where
  "parseLine line =
     (let fields = split 0x20 (cleanLine line)
      in \<lparr>plugin_id = hd fields,
          version = (case array_at fields 1 of
                       None \<Rightarrow> js ''unknown''
                     | Some v \<Rightarrow> if v = [] then js ''unknown'' else v)\<rparr>)"

definition parsePluginList :: "jsstring \<Rightarrow> InstalledPlugin list" where
  "parsePluginList output =
     (let lines = filter (\<lambda>line. trim line \<noteq> []) (split 0x0A output)
      in filter (\<lambda>plugin. plugin_id plugin \<noteq> [] \<and> plugin_id plugin \<noteq> js ''undefined'')
           (map parseLine lines))"

section \<open>The process and its environment\<close>

text \<open>
  What a subprocess started by \<open>execPromise\<close> ends with: its standard output, or the message
  of the error the promise is rejected with. Every subprocess is taken to exit, and every
  prompt to be answered.
\<close>

datatype outcome = Resolved jsstring | Rejected jsstring

text \<open>
  The observable actions of a session, in the order they happen: console output, each
  subprocess with its command line, the working directory it was started in and its outcome,
  each prompt with the operator's answer, the closing of the readline interface and the exit
  of the process.
\<close>

datatype event =
    Log jsstring
  | LogError jsstring
  | Exec jsstring jsstring outcome
  | Question jsstring jsstring
  | Close
  | Exit int

record process =
  cwd :: jsstring
  events :: "event list"

text \<open>
  Everything outside the program: the file system as \<open>fs.existsSync\<close> sees it,
  \<open>path.join\<close> and \<open>path.resolve\<close>, the outcome of a command (which may depend on
  everything that happened before), the answer the operator types to a prompt, and the
  first command line argument.
\<close>

record env =
  existsSync :: "jsstring \<Rightarrow> bool"
  path_join :: "jsstring \<Rightarrow> jsstring \<Rightarrow> jsstring"
  path_resolve :: "jsstring \<Rightarrow> jsstring \<Rightarrow> jsstring"
  subprocess :: "process \<Rightarrow> jsstring \<Rightarrow> outcome"
  operator :: "process \<Rightarrow> jsstring \<Rightarrow> jsstring"
  argv2 :: "jsstring option"

definition emit :: "event \<Rightarrow> process \<Rightarrow> process" where
  "emit e p = p\<lparr>events := events p @ [e]\<rparr>"

definition console_log :: "jsstring \<Rightarrow> process \<Rightarrow> process" where
  "console_log msg p = emit (Log msg) p"

definition console_error :: "jsstring \<Rightarrow> process \<Rightarrow> process" where
  "console_error msg p = emit (LogError msg) p"

definition execPromise :: "env \<Rightarrow> jsstring \<Rightarrow> process \<Rightarrow> outcome \<times> process" where
  "execPromise env command p =
     (let r = subprocess env p command in (r, emit (Exec command (cwd p) r) p))"

definition question :: "env \<Rightarrow> jsstring \<Rightarrow> process \<Rightarrow> jsstring \<times> process" where
  "question env query p =
     (let answer = operator env p query in (answer, emit (Question query answer) p))"

text \<open>
  \<open>process.chdir\<close>. It is taken to succeed: the program calls it once, after it has found
  the directory and a file in it.
\<close>

definition chdir :: "jsstring \<Rightarrow> process \<Rightarrow> process" where
  "chdir dir p = p\<lparr>cwd := dir\<rparr>"

text \<open>The console colours of the source.\<close>

definition green :: jsstring where "green = 0x1B # js ''[32m''"
definition reset :: jsstring where "reset = 0x1B # js ''[0m''"
definition yellow :: jsstring where "yellow = 0x1B # js ''[33m''"
definition red :: jsstring where "red = 0x1B # js ''[31m''"

text \<open>
  An \<open>Error\<close> is given by its message; in a template literal it is converted with
  \<open>Error.prototype.toString\<close>.
\<close>

definition Error_toString :: "jsstring \<Rightarrow> jsstring" where
  "Error_toString message = (if message = [] then js ''Error'' else js ''Error: '' @ message)"

text \<open>A value that may be \<open>undefined\<close>, in a template literal.\<close>

definition template :: "jsstring option \<Rightarrow> jsstring" where
  "template v = (case v of None \<Rightarrow> js ''undefined'' | Some s \<Rightarrow> s)"

text \<open>
  \<open>toLowerCase\<close> on the letters A to Z. The program only compares the result with \<open>'y'\<close>,
  and no other code unit is mapped to \<open>y\<close> by the Unicode lower case conversion.
\<close>

definition toLowerCase :: "jsstring \<Rightarrow> jsstring" where
  "toLowerCase s = map (\<lambda>c. if 0x41 \<le> c \<and> c \<le> 0x5A then c + 0x20 else c) s"

section \<open>Updating one plugin\<close>

definition updatePlugin :: "env \<Rightarrow> jsstring \<Rightarrow> process \<Rightarrow> bool \<times> process" where
  "updatePlugin env pluginId p0 =
     (let p1 = console_log (0x0A # js ''Updating '' @ pluginId @ js ''...'') p0;
          (r1, p2) = execPromise env (js ''cordova plugin remove '' @ pluginId @ js '' --force'') p1
      in case r1 of
           Rejected error \<Rightarrow>
             (False, console_error (red @ js ''Failed to update '' @ pluginId @ js '': ''
                                      @ Error_toString error @ reset) p2)
         | Resolved _ \<Rightarrow>
             (let (r2, p3) = execPromise env (js ''cordova plugin add '' @ pluginId) p2
              in case r2 of
                   Rejected error \<Rightarrow>
                     (False, console_error (red @ js ''Failed to update '' @ pluginId @ js '': ''
                                              @ Error_toString error @ reset) p3)
                 | Resolved _ \<Rightarrow>
                     (True, console_log (green @ js ''Successfully updated '' @ pluginId @ reset)
                              p3)))"

section \<open>The update checker\<close>

record UpdateResult =
  plugin :: jsstring
  currentVersion :: jsstring
  latestVersion :: "jsstring option"
  hasUpdate :: "bool option"
  error :: "jsstring option"

text \<open>
  The \<open>for\<close> loop of \<open>checkPluginUpdates\<close>. \<open>console.error\<close> is called with a label and the
  error object there; the event holds the label and the error's text.
\<close>

fun checkEach ::
  "env \<Rightarrow> InstalledPlugin list \<Rightarrow> UpdateResult list \<Rightarrow> process \<Rightarrow> UpdateResult list \<times> process"
where
  "checkEach env [] updateResults p = (updateResults, p)"
| "checkEach env (pl # rest) updateResults p =
     (if plugin_id pl = [] \<or> plugin_id pl = js ''undefined'' then checkEach env rest updateResults p
      else case execPromise env (js ''npm view '' @ plugin_id pl @ js '' version'') p of
             (Resolved npmInfo, p1) \<Rightarrow>
               (let latestVersion = trim npmInfo;
                    currentVersion = version pl;
                    hasUpdate = compareVersions currentVersion latestVersion
                in checkEach env rest
                     (updateResults @
                        [\<lparr>plugin = plugin_id pl, currentVersion = currentVersion,
                          latestVersion = Some latestVersion, hasUpdate = Some hasUpdate,
                          error = None\<rparr>]) p1)
           | (Rejected err, p1) \<Rightarrow>
               checkEach env rest
                 (updateResults @
                    [\<lparr>plugin = plugin_id pl, currentVersion = version pl,
                      latestVersion = None, hasUpdate = None,
                      error = Some (js ''Failed to check for updates'')\<rparr>])
                 (console_error (js ''Error checking plugin '' @ plugin_id pl @ js '': ''
                                   @ Error_toString err) p1))"

text \<open>
  \<open>checkPluginUpdates\<close> returns the results, or the message of the error it throws: every
  error raised in its body is caught and thrown again with a prefix.
\<close>

definition rethrow :: "jsstring \<Rightarrow> jsstring" where
  "rethrow message = js ''Failed to check plugin updates: '' @ message"

definition checkPluginUpdates ::
  "env \<Rightarrow> jsstring \<Rightarrow> process \<Rightarrow> (jsstring + UpdateResult list) \<times> process"
where
  "checkPluginUpdates env projectPath p0 =
     (if \<not> existsSync env projectPath
      then (Inl (rethrow (js ''Project path does not exist: '' @ projectPath)), p0)
      else let configPath = path_join env projectPath (js ''config.xml'')
           in if \<not> existsSync env configPath
              then (Inl (rethrow (js ''Not a Cordova project: '' @ projectPath
                                    @ js '' (config.xml not found)'')), p0)
              else let p1 = chdir projectPath p0
                   in case execPromise env (js ''cordova plugin list'') p1 of
                        (Rejected message, p2) \<Rightarrow> (Inl (rethrow message), p2)
                      | (Resolved pluginListOutput, p2) \<Rightarrow>
                          (let installedPlugins = parsePluginList pluginListOutput;
                               (updateResults, p3) = checkEach env installedPlugins [] p2
                           in (Inr updateResults, p3)))"

section \<open>The session\<close>

text \<open>
  The \<open>forEach\<close> over the results: one report per result, and the results with an update
  are collected in \<open>pluginsToUpdate\<close>. An error entry is one whose \<open>error\<close> is a non-empty
  string.
\<close>

definition reportText :: "UpdateResult \<Rightarrow> jsstring" where
  "reportText result =
     (let updateStatus = (if hasUpdate result = Some True
                          then green @ js ''Yes - update available!'' @ reset else js ''No'')
      in 0x0A # js ''    Plugin: '' @ plugin result
         @ 0x0A # js ''    Current Version: '' @ currentVersion result
         @ 0x0A # js ''    Latest Version: '' @ template (latestVersion result)
         @ 0x0A # js ''    Update Available: '' @ updateStatus
         @ 0x0A # js ''                '')"

fun report :: "UpdateResult list \<Rightarrow> UpdateResult list \<Rightarrow> process \<Rightarrow> UpdateResult list \<times> process"
where
  "report [] pluginsToUpdate p = (pluginsToUpdate, p)"
| "report (result # rest) pluginsToUpdate p =
     (case error result of
        Some (c # cs) \<Rightarrow>
          report rest pluginsToUpdate
            (console_log (red @ plugin result @ js '': '' @ (c # cs) @ reset) p)
      | _ \<Rightarrow>
          report rest
            (if hasUpdate result = Some True then pluginsToUpdate @ [result] else pluginsToUpdate)
            (console_log (reportText result) p))"

text \<open>The prompt loop over \<open>pluginsToUpdate\<close>.\<close>

fun promptEach :: "env \<Rightarrow> UpdateResult list \<Rightarrow> process \<Rightarrow> process" where
  "promptEach env [] p = p"
| "promptEach env (result # rest) p =
     (case question env
             (0x0A # js ''Do you want to update '' @ plugin result @ js '' from ''
                @ currentVersion result @ js '' to '' @ template (latestVersion result)
                @ js ''? (y/n): '') p of
        (answer, p1) \<Rightarrow>
          if toLowerCase answer = js ''y''
          then promptEach env rest (snd (updatePlugin env (plugin result) p1))
          else promptEach env rest p1)"

text \<open>
  The project path of the session: the first argument, or \<open>'.'\<close> when it is missing or
  empty, resolved against the working directory.
\<close>

definition targetPath :: "env \<Rightarrow> process \<Rightarrow> jsstring" where
  "targetPath env p0 =
     (let projectPath = (case argv2 env of None \<Rightarrow> js ''.''
                         | Some a \<Rightarrow> if a = [] then js ''.'' else a)
      in path_resolve env (cwd p0) projectPath)"

definition checkUpdates :: "env \<Rightarrow> process \<Rightarrow> process" where
  "checkUpdates env p0 =
     (let absolutePath = targetPath env p0;
          p1 = console_log (js ''Checking plugins in project: '' @ absolutePath) p0
      in case checkPluginUpdates env absolutePath p1 of
           (Inr results, p2) \<Rightarrow>
             (let p3 = console_log (0x0A # js ''Plugin Update Check Results:'') p2;
                  (pluginsToUpdate, p4) = report results [] p3;
                  p5 = (if pluginsToUpdate \<noteq> [] then promptEach env pluginsToUpdate p4
                        else console_log (0x0A # js ''All plugins are up to date!'') p4)
              in emit Close p5)
         | (Inl message, p2) \<Rightarrow>
             emit (Exit 1)
               (emit Close
                  (console_error (red @ js ''Failed to check plugin updates: ''
                                    @ Error_toString message @ reset) p2)))"

section \<open>Notions used in the statements\<close>

text \<open>
  The segments of a version string are the pieces between its dots; component \<open>i\<close> is the
  Number the comparator reads at index \<open>i\<close>: the Number of segment \<open>i\<close>, or NaN when the
  string has no such segment. A component decides when one of the two comparisons of the
  loop holds at it.
\<close>

definition segment :: "jsstring \<Rightarrow> nat \<Rightarrow> jsstring option" where
  "segment v i = array_at (split 0x2E v) i"

definition component :: "jsstring \<Rightarrow> nat \<Rightarrow> number" where
  "component v i = ToNumber (array_at (map Number (split 0x2E v)) i)"

definition decides :: "jsstring \<Rightarrow> jsstring \<Rightarrow> nat \<Rightarrow> bool" where
  "decides current latest i \<longleftrightarrow>
     js_less (component current i) (component latest i) \<or>
     js_less (component latest i) (component current i)"

text \<open>
  The integer a string of decimal digits denotes, read from its last digit up, and the
  strings that denote an integer below \<open>2 ^ 53\<close>, which a double holds exactly. The integer
  component \<open>i\<close> of a version string is the integer of its segment \<open>i\<close>, when the segment
  is such a string.
\<close>

definition is_decimal_digit :: "jschar \<Rightarrow> bool" where
  "is_decimal_digit c \<longleftrightarrow> 0x30 \<le> c \<and> c \<le> 0x39"

fun value_of_reversed :: "jsstring \<Rightarrow> int" where
  "value_of_reversed [] = 0"
| "value_of_reversed (c # cs) = (uint c - 0x30) + 10 * value_of_reversed cs"

definition decimal_value :: "jsstring \<Rightarrow> int" where
  "decimal_value s = value_of_reversed (rev s)"

definition small_decimal :: "jsstring \<Rightarrow> bool" where
  "small_decimal s \<longleftrightarrow> s \<noteq> [] \<and> list_all is_decimal_digit s \<and> decimal_value s < 2 ^ 53"

definition int_component :: "jsstring \<Rightarrow> nat \<Rightarrow> int option" where
  "int_component v i =
     (case segment v i of
        None \<Rightarrow> None
      | Some s \<Rightarrow> if small_decimal s then Some (decimal_value s) else None)"

text \<open>
  For the parser. \<open>join\<close> puts the separator back between the pieces of a split. A line is
  visible when it is not blank: some character of it is not white space. The fields of a
  cleaned line: the text before its first space, the text after its first space, and of
  that text the part before the next space.
\<close>

fun join :: "jschar \<Rightarrow> jsstring list \<Rightarrow> jsstring" where
  "join sep [] = []"
| "join sep [x] = x"
| "join sep (x # y # ys) = x @ sep # join sep (y # ys)"

definition visible :: "jsstring \<Rightarrow> bool" where
  "visible line \<longleftrightarrow> (\<exists>c\<in>set line. \<not> isWhiteSpace c)"

definition first_field :: "jsstring \<Rightarrow> jsstring" where
  "first_field s = takeWhile (\<lambda>c. c \<noteq> 0x20) s"

definition after_first_space :: "jsstring \<Rightarrow> jsstring" where
  "after_first_space s = drop 1 (dropWhile (\<lambda>c. c \<noteq> 0x20) s)"

definition second_field :: "jsstring \<Rightarrow> jsstring" where
  "second_field s = first_field (after_first_space s)"

text \<open>
  Two readings of a line as a plugin. \<open>fields_parseLine\<close>: the id is the first field and the
  version the second, \<open>"unknown"\<close> when that is empty. \<open>first_space_parseLine\<close>: the line is
  cut in two at its first space, the version being all that follows it, \<open>"unknown"\<close> when
  the line has no space.
\<close>

definition fields_parseLine :: "jsstring \<Rightarrow> InstalledPlugin" where
  "fields_parseLine line =
     (let cl = cleanLine line
      in \<lparr>plugin_id = first_field cl,
          version = (if second_field cl = [] then js ''unknown'' else second_field cl)\<rparr>)"

definition first_space_parseLine :: "jsstring \<Rightarrow> InstalledPlugin" where
  "first_space_parseLine line =
     (let cl = cleanLine line
      in \<lparr>plugin_id = first_field cl,
          version = (if 0x20 \<in> set cl then after_first_space cl else js ''unknown'')\<rparr>)"

text \<open>
  For the session. The events a run adds to the trace; the subprocesses of a trace, each with
  its command and its outcome, in order; the working directories they were started in.
\<close>

definition added :: "process \<Rightarrow> process \<Rightarrow> event list" where
  "added p p' = drop (length (events p)) (events p')"

fun execs :: "event list \<Rightarrow> (jsstring \<times> outcome) list" where
  "execs [] = []"
| "execs (Exec command dir r # t) = (command, r) # execs t"
| "execs (e # t) = execs t"

fun exec_dirs :: "event list \<Rightarrow> jsstring list" where
  "exec_dirs [] = []"
| "exec_dirs (Exec command dir r # t) = dir # exec_dirs t"
| "exec_dirs (e # t) = exec_dirs t"

definition resolved :: "outcome \<Rightarrow> bool" where
  "resolved r = (case r of Resolved out \<Rightarrow> True | Rejected message \<Rightarrow> False)"

definition is_question :: "event \<Rightarrow> bool" where
  "is_question e = (case e of Question query answer \<Rightarrow> True | _ \<Rightarrow> False)"

definition is_error_log :: "event \<Rightarrow> bool" where
  "is_error_log e = (case e of LogError msg \<Rightarrow> True | _ \<Rightarrow> False)"

text \<open>
  The prompts of a trace, in order, each with the operator's answer and the events that
  follow it up to the next prompt.
\<close>

fun blocks :: "event list \<Rightarrow> (jsstring \<times> jsstring \<times> event list) list" where
  "blocks [] = []"
| "blocks (Question query answer # t) =
     (query, answer, takeWhile (\<lambda>e. \<not> is_question e) t) # blocks t"
| "blocks (e # t) = blocks t"

text \<open>The two commands of an update, and the registry lookup.\<close>

definition removeCommand :: "jsstring \<Rightarrow> jsstring" where
  "removeCommand pluginId = js ''cordova plugin remove '' @ pluginId @ js '' --force''"

definition addCommand :: "jsstring \<Rightarrow> jsstring" where
  "addCommand pluginId = js ''cordova plugin add '' @ pluginId"

definition viewCommand :: "jsstring \<Rightarrow> jsstring" where
  "viewCommand pluginId = js ''npm view '' @ pluginId @ js '' version''"

text \<open>The subprocesses of an update: the remove, and the add only after a remove that succeeded.\<close>

definition update_execs :: "jsstring \<Rightarrow> (jsstring \<times> outcome) list \<Rightarrow> bool" where
  "update_execs pluginId xs \<longleftrightarrow>
     (\<exists>message. xs = [(removeCommand pluginId, Rejected message)]) \<or>
     (\<exists>out r. xs = [(removeCommand pluginId, Resolved out), (addCommand pluginId, r)])"

text \<open>An answer is affirmative when it is \<open>y\<close> in either case.\<close>

definition affirmative :: "jsstring \<Rightarrow> bool" where
  "affirmative answer \<longleftrightarrow> answer = js ''y'' \<or> answer = js ''Y''"

text \<open>
  What the result for a plugin must be, given the outcome of its registry lookup: the error
  entry without version data after a failure, the latest version and the comparison after a
  success.
\<close>

definition result_for :: "InstalledPlugin \<Rightarrow> outcome \<Rightarrow> UpdateResult" where
  "result_for pl r =
     (case r of
        Rejected message \<Rightarrow>
          \<lparr>plugin = plugin_id pl, currentVersion = version pl, latestVersion = None,
           hasUpdate = None, error = Some (js ''Failed to check for updates'')\<rparr>
      | Resolved out \<Rightarrow>
          \<lparr>plugin = plugin_id pl, currentVersion = version pl, latestVersion = Some (trim out),
           hasUpdate = Some (compareVersions (version pl) (trim out)), error = None\<rparr>)"

text \<open>The two errors of the preconditions, and what the session prints for an error.\<close>

definition missingPathMessage :: "jsstring \<Rightarrow> jsstring" where
  "missingPathMessage projectPath = js ''Project path does not exist: '' @ projectPath"

definition missingManifestMessage :: "jsstring \<Rightarrow> jsstring" where
  "missingManifestMessage projectPath =
     js ''Not a Cordova project: '' @ projectPath @ js '' (config.xml not found)''"

definition fatalReport :: "jsstring \<Rightarrow> jsstring" where
  "fatalReport message =
     red @ js ''Failed to check plugin updates: '' @ Error_toString message @ reset"

text \<open>
  The question for a result, and what it is for a text to mention a string: the string
  stands somewhere in it.
\<close>

definition questionText :: "UpdateResult \<Rightarrow> jsstring" where
  "questionText result =
     0x0A # js ''Do you want to update '' @ plugin result @ js '' from '' @ currentVersion result
       @ js '' to '' @ (case latestVersion result of None \<Rightarrow> js ''undefined'' | Some v \<Rightarrow> v)
       @ js ''? (y/n): ''"

definition mentions :: "jsstring \<Rightarrow> jsstring \<Rightarrow> bool" where
  "mentions text s \<longleftrightarrow> (\<exists>before after. text = before @ s @ after)"

text \<open>
  What the block of a prompt must be for a result: the question is the one for the result,
  and mentions the plugin, its current version and its latest version; after an affirmative
  answer the subprocesses are those of an update of that plugin; after any other answer
  nothing happens before the next prompt.
\<close>

definition prompt_block :: "UpdateResult \<Rightarrow> jsstring \<times> jsstring \<times> event list \<Rightarrow> bool" where
  "prompt_block result b \<longleftrightarrow>
     (case b of (query, answer, u) \<Rightarrow>
        query = questionText result \<and>
        mentions query (plugin result) \<and> mentions query (currentVersion result) \<and>
        (\<forall>v. latestVersion result = Some v \<longrightarrow> mentions query v) \<and>
        (affirmative answer \<longrightarrow> update_execs (plugin result) (execs u)) \<and>
        (\<not> affirmative answer \<longrightarrow> u = []))"

section \<open>Example sessions\<close>

text \<open>
  A process started in \<open>/home\<close> on the project \<open>/app\<close>. In \<open>env_failing\<close> every path
  exists, every subprocess fails and the operator answers \<open>Y\<close>; the other environments
  differ from it in the file system, in the operator's answer or in the subprocesses.
\<close>

definition process0 :: process where
  "process0 = \<lparr>cwd = js ''/home'', events = []\<rparr>"

definition env_failing :: env where
  "env_failing =
     \<lparr>existsSync = (\<lambda>path. True), path_join = (\<lambda>a b. a @ 0x2F # b),
      path_resolve = (\<lambda>dir path. path), subprocess = (\<lambda>p command. Rejected (js ''boom'')),
      operator = (\<lambda>p query. js ''Y''), argv2 = Some (js ''/app'')\<rparr>"

definition env_no_path :: env where
  "env_no_path = env_failing\<lparr>existsSync := (\<lambda>path. False)\<rparr>"

definition env_no_manifest :: env where
  "env_no_manifest = env_failing\<lparr>existsSync := (\<lambda>path. path = js ''/app'')\<rparr>"

definition env_declining :: env where
  "env_declining = env_failing\<lparr>operator := (\<lambda>p query. js ''n'')\<rparr>"

definition env_lookup :: env where
  "env_lookup =
     env_failing\<lparr>subprocess := (\<lambda>p command. if command = js ''npm view a version''
                                    then Rejected (js ''boom'') else Resolved (js ''2.0.1''))\<rparr>"

definition result_a :: UpdateResult where
  "result_a = \<lparr>plugin = js ''a'', currentVersion = js ''1.0.0'', latestVersion = Some (js ''1.0.1''),
                hasUpdate = Some True, error = None\<rparr>"

definition result_b :: UpdateResult where
  "result_b = \<lparr>plugin = js ''b'', currentVersion = js ''2.0.0'', latestVersion = Some (js ''2.0.1''),
                hasUpdate = Some True, error = None\<rparr>"

section \<open>Facts about numbers\<close>

lemma js_less_asym: "js_less x y \<Longrightarrow> \<not> js_less y x"
  by (cases x; cases y) auto

lemma js_less_irrefl: "\<not> js_less x x"
  by (cases x) simp_all

lemma js_less_NaN_right: "\<not> js_less x NaN"
  by (cases x) simp_all

lemma to_double_int:
  assumes "0 \<le> n" "n < 2 ^ 53"
  shows "to_double n 1 = Finite (of_int n)"
proof (cases "n = 0")
  case True
  then show ?thesis by (simp add: to_double_def)
next
  case False
  with assms have pos: "0 < n" by simp
  define b where "b = bitlen n"
  have b1: "1 \<le> b" using pos by (simp add: b_def bitlen_ge_iff_power)
  have b53: "b \<le> 53" using assms by (simp add: b_def bitlen_le_iff_power)
  have lo: "2 ^ nat (b - 1) \<le> n" using bitlen_bounds [OF pos] by (simp add: b_def)
  have one: "bitlen 1 = 1" by (simp add: bitlen_alt_def)
  have il: "ilog2 n 1 = b - 1"
    using b1 lo by (simp add: ilog2_def one b_def [symmetric])
  define c where "c = nat (53 - b)"
  have e: "max (ilog2 n 1 - 52) (- 1074) = - int c"
    using b1 b53 by (simp add: il c_def)
  have m: "round_half_even (n * 2 ^ c) 1 = n * 2 ^ c"
    by (simp add: round_half_even_def)
  have bl: "bitlen (n * 2 ^ c) = 53"
    using pos b53 by (simp add: c_def b_def)
  have val: "(of_int (n * 2 ^ c) :: rat) * 2 powi (- int c) = of_int n"
    by (simp add: power_int_minus field_simps)
  show ?thesis
    using False by (simp add: to_double_def e m bl val Let_def del: of_int_mult of_int_power)
qed

lemma is_digit_10_iff: "is_digit 10 c \<longleftrightarrow> 0x30 \<le> c \<and> c \<le> 0x39"
  by (auto simp: is_digit_def digit_of_def word_le_def uint_word_of_int split: if_splits)

lemma digit_not_space: "is_digit 10 c \<Longrightarrow> \<not> isWhiteSpace c"
  by (auto simp: is_digit_10_iff isWhiteSpace_def word_le_def)

lemma dropWhile_hd_id: "s \<noteq> [] \<Longrightarrow> \<not> P (hd s) \<Longrightarrow> dropWhile P s = s"
  by (cases s) auto

lemma trim_digits:
  assumes "s \<noteq> []" "list_all (is_digit 10) s"
  shows "trim s = s"
proof -
  from assms have "\<not> isWhiteSpace (hd s)" "\<not> isWhiteSpace (last s)"
    by (auto simp: list_all_iff intro!: digit_not_space)
  with assms(1) show ?thesis
    by (simp add: trim_def dropWhile_hd_id hd_rev)
qed

lemma radix_prefix_digits:
  assumes "list_all (is_digit 10) s"
  shows "radix_prefix s = None"
proof (cases s)
  case Nil
  then show ?thesis by (simp add: radix_prefix_def)
next
  case (Cons c0 r)
  show ?thesis
  proof (cases r)
    case Nil
    with Cons show ?thesis by (simp add: radix_prefix_def)
  next
    case (Cons c1 r')
    with assms \<open>s = c0 # r\<close> have "is_digit 10 c1" by simp
    then have "c1 \<noteq> 0x78" "c1 \<noteq> 0x58" "c1 \<noteq> 0x6F" "c1 \<noteq> 0x4F" "c1 \<noteq> 0x62" "c1 \<noteq> 0x42"
      by (auto simp: is_digit_10_iff)
    with Cons \<open>s = c0 # r\<close> show ?thesis by (simp add: radix_prefix_def)
  qed
qed

lemma unsigned_decimal_digits:
  assumes "s \<noteq> []" "list_all (is_digit 10) s"
  shows "unsigned_decimal s = to_double (digits_value 10 s) 1"
proof -
  have "\<not> is_digit 10 0x49" by (simp add: is_digit_10_iff)
  with assms(2) have ninf: "s \<noteq> js ''Infinity''" by (auto simp: js_def)
  from assms(2) have tw: "takeWhile (is_digit 10) s = s" "dropWhile (is_digit 10) s = []"
    by (simp_all add: list_all_iff)
  show ?thesis
    using assms(1) ninf by (simp add: unsigned_decimal_def tw exponent_part_def)
qed

lemma digits_value_nonneg_aux:
  "0 \<le> a \<Longrightarrow> 0 \<le> foldl (\<lambda>a c. 10 * a + (case digit_of c of None \<Rightarrow> 0 | Some v \<Rightarrow> v)) a ds"
proof (induction ds arbitrary: a)
  case Nil
  then show ?case by simp
next
  case (Cons c ds)
  have "0 \<le> (case digit_of c of None \<Rightarrow> 0 | Some v \<Rightarrow> v)"
    by (auto simp: digit_of_def word_le_def split: option.splits if_splits)
  with Cons.prems have "0 \<le> 10 * a + (case digit_of c of None \<Rightarrow> 0 | Some v \<Rightarrow> v)" by simp
  then show ?case using Cons.IH by simp
qed

lemma digits_value_nonneg: "0 \<le> digits_value 10 ds"
  unfolding digits_value_def by (rule digits_value_nonneg_aux) simp

text \<open>A plain decimal segment is read as the integer it denotes.\<close>

lemma Number_decimal:
  assumes ne: "s \<noteq> []" and ds: "list_all (is_digit 10) s" and small: "digits_value 10 s < 2 ^ 53"
  shows "Number s = Finite (of_int (digits_value 10 s))"
proof -
  from ne ds have "is_digit 10 (hd s)" by (cases s) simp_all
  then have "hd s \<noteq> 0x2B" "hd s \<noteq> 0x2D" by (auto simp: is_digit_10_iff)
  then have "Number s = unsigned_decimal s"
    using ne by (simp add: Number_def trim_digits [OF ne ds] radix_prefix_digits [OF ds])
  also have "\<dots> = to_double (digits_value 10 s) 1" using ne ds by (rule unsigned_decimal_digits)
  also have "\<dots> = Finite (of_int (digits_value 10 s))"
    using digits_value_nonneg small by (rule to_double_int)
  finally show ?thesis .
qed

lemma is_digit_decimal: "is_digit 10 c \<longleftrightarrow> is_decimal_digit c"
  by (simp add: is_digit_10_iff is_decimal_digit_def)

lemma digit_of_decimal: "is_decimal_digit c \<Longrightarrow> digit_of c = Some (uint c - 0x30)"
  by (simp add: is_decimal_digit_def digit_of_def)

lemma digits_value_snoc:
  "digits_value 10 (s @ [c]) = 10 * digits_value 10 s + (case digit_of c of None \<Rightarrow> 0 | Some v \<Rightarrow> v)"
  by (simp add: digits_value_def)

lemma digits_value_decimal:
  "list_all is_decimal_digit s \<Longrightarrow> digits_value 10 s = decimal_value s"
proof (induction s rule: rev_induct)
  case Nil
  then show ?case by (simp add: digits_value_def decimal_value_def)
next
  case (snoc c s)
  then have "is_decimal_digit c" and "digits_value 10 s = decimal_value s" by simp_all
  then show ?case
    by (simp add: digits_value_snoc digit_of_decimal decimal_value_def)
qed

lemma Number_small_decimal:
  assumes "small_decimal s"
  shows "Number s = Finite (of_int (decimal_value s))"
proof -
  from assms have ne: "s \<noteq> []" and ds: "list_all is_decimal_digit s"
    and small: "decimal_value s < 2 ^ 53"
    by (simp_all add: small_decimal_def)
  from ds have v: "digits_value 10 s = decimal_value s" by (rule digits_value_decimal)
  from ds have "list_all (is_digit 10) s" by (simp add: list_all_iff is_digit_decimal)
  with ne have "Number s = Finite (of_int (digits_value 10 s))"
    using small unfolding v [symmetric] by (rule Number_decimal)
  then show ?thesis unfolding v .
qed

section \<open>Facts about the comparator\<close>

lemma component_segment:
  "component v i = (case segment v i of None \<Rightarrow> NaN | Some s \<Rightarrow> Number s)"
  by (simp add: component_def segment_def array_at_def ToNumber_def)

lemma segment_None_later: "segment v i = None \<Longrightarrow> i \<le> k \<Longrightarrow> segment v k = None"
  by (simp add: segment_def array_at_def split: if_splits)

lemma compareFrom_step:
  "compareFrom (map Number (split 0x2E current)) (map Number (split 0x2E latest)) i =
     (if i < 3 then
        (if js_less (component current i) (component latest i) then True
         else if js_less (component latest i) (component current i) then False
         else compareFrom (map Number (split 0x2E current)) (map Number (split 0x2E latest))
                (Suc i))
      else False)"
  by (subst compareFrom.simps) (simp add: component_def js_gt_def js_lt_def)

lemma compareVersions_unfold:
  assumes "current \<noteq> js ''unknown''"
  shows "compareVersions current latest =
     (if js_less (component current 0) (component latest 0) then True
      else if js_less (component latest 0) (component current 0) then False
      else if js_less (component current 1) (component latest 1) then True
      else if js_less (component latest 1) (component current 1) then False
      else if js_less (component current 2) (component latest 2) then True
      else False)"
  using assms
  by (simp add: compareVersions_def compareFrom_step [of _ _ 0] compareFrom_step [of _ _ "Suc 0"]
      compareFrom_step [of _ _ "Suc (Suc 0)"] compareFrom_step [of _ _ "Suc (Suc (Suc 0))"]
      numeral_2_eq_2 del: compareFrom.simps)

lemma later_0:
  "(\<exists>k. 0 < k \<and> k < (3::nat) \<and> P k \<and> (\<forall>j. 0 < j \<and> j < k \<longrightarrow> \<not> D j)) \<longleftrightarrow> P 1 \<or> (P 2 \<and> \<not> D 1)"
proof
  assume "\<exists>k. 0 < k \<and> k < 3 \<and> P k \<and> (\<forall>j. 0 < j \<and> j < k \<longrightarrow> \<not> D j)"
  then obtain k where k: "0 < k" "k < 3" "P k" "\<forall>j. 0 < j \<and> j < k \<longrightarrow> \<not> D j" by blast
  then have "k = 1 \<or> k = 2" by linarith
  then show "P 1 \<or> (P 2 \<and> \<not> D 1)"
  proof
    assume "k = 1" with k show ?thesis by simp
  next
    assume "k = 2"
    moreover from this k(4) have "\<not> D 1" by simp
    ultimately show ?thesis using k(3) by simp
  qed
next
  assume "P 1 \<or> (P 2 \<and> \<not> D 1)"
  then show "\<exists>k. 0 < k \<and> k < 3 \<and> P k \<and> (\<forall>j. 0 < j \<and> j < k \<longrightarrow> \<not> D j)"
  proof
    assume "P 1"
    then have "0 < (1::nat) \<and> (1::nat) < 3 \<and> P 1 \<and> (\<forall>j. 0 < j \<and> j < 1 \<longrightarrow> \<not> D j)" by simp
    then show ?thesis by (rule exI)
  next
    assume a: "P 2 \<and> \<not> D 1"
    have "\<not> D j" if "0 < j \<and> j < 2" for j
    proof -
      from that have "j = 1" by linarith
      with a show ?thesis by simp
    qed
    with a have "0 < (2::nat) \<and> (2::nat) < 3 \<and> P 2 \<and> (\<forall>j. 0 < j \<and> j < 2 \<longrightarrow> \<not> D j)" by simp
    then show ?thesis by (rule exI)
  qed
qed

lemma later_1:
  "(\<exists>k. 1 < k \<and> k < (3::nat) \<and> P k \<and> (\<forall>j. 1 < j \<and> j < k \<longrightarrow> \<not> D j)) \<longleftrightarrow> P 2"
proof
  assume "\<exists>k. 1 < k \<and> k < 3 \<and> P k \<and> (\<forall>j. 1 < j \<and> j < k \<longrightarrow> \<not> D j)"
  then obtain k where k: "1 < k" "k < 3" "P k" by blast
  then have "k = 2" by linarith
  with k show "P 2" by simp
next
  assume "P 2"
  moreover have "\<not> (1 < j \<and> j < 2)" for j :: nat by linarith
  then have "\<forall>j. 1 < j \<and> j < 2 \<longrightarrow> \<not> D j" by blast
  ultimately have "1 < (2::nat) \<and> (2::nat) < 3 \<and> P 2 \<and> (\<forall>j. 1 < j \<and> j < 2 \<longrightarrow> \<not> D j)"
    by simp
  then show "\<exists>k. 1 < k \<and> k < 3 \<and> P k \<and> (\<forall>j. 1 < j \<and> j < k \<longrightarrow> \<not> D j)" by (rule exI)
qed

lemma later_2:
  "\<not> (\<exists>k. 2 < k \<and> k < (3::nat) \<and> P k \<and> (\<forall>j. 2 < j \<and> j < k \<longrightarrow> \<not> D j))"
  by auto


lemma compareVersions_first_decides:
  assumes "current \<noteq> js ''unknown''"
  shows "compareVersions current latest \<longleftrightarrow>
     js_less (component current 0) (component latest 0) \<or>
     \<not> decides current latest 0 \<and> js_less (component current 1) (component latest 1) \<or>
     \<not> decides current latest 0 \<and> \<not> decides current latest 1 \<and>
       js_less (component current 2) (component latest 2)"
proof -
  have a0: "\<not> js_less (component latest 0) (component current 0)"
    if "js_less (component current 0) (component latest 0)"
    using that by (rule js_less_asym)
  have a1: "\<not> js_less (component latest 1) (component current 1)"
    if "js_less (component current 1) (component latest 1)"
    using that by (rule js_less_asym)
  show ?thesis
    unfolding compareVersions_unfold [OF assms] decides_def using a0 a1 by auto
qed

lemma component_int:
  assumes "int_component v i = Some n"
  shows "component v i = Finite (of_int n)"
proof -
  from assms obtain s where s: "segment v i = Some s" "small_decimal s" "n = decimal_value s"
    by (auto simp: int_component_def split: option.splits if_splits)
  from s(2) have "Number s = Finite (of_int (decimal_value s))" by (rule Number_small_decimal)
  with s(1,3) show ?thesis by (simp add: component_segment)
qed

lemma lex3:
  "(\<exists>i<3. A i \<and> (\<forall>j<i. E j)) \<longleftrightarrow> A (0::nat) \<or> (E 0 \<and> A 1) \<or> (E 0 \<and> E 1 \<and> A 2)"
proof
  assume "\<exists>i<3. A i \<and> (\<forall>j<i. E j)"
  then obtain i where i: "i < 3" "A i" "\<forall>j<i. E j" by blast
  from i(1) consider "i = 0" | "i = 1" | "i = 2" by linarith
  then show "A 0 \<or> (E 0 \<and> A 1) \<or> (E 0 \<and> E 1 \<and> A 2)"
  proof cases
    case 1
    with i(2) show ?thesis by simp
  next
    case 2
    with i(3) have "E 0" by simp
    with 2 i(2) show ?thesis by simp
  next
    case 3
    with i(3) have "E 0" "E 1" by simp_all
    with 3 i(2) show ?thesis by simp
  qed
next
  assume "A 0 \<or> (E 0 \<and> A 1) \<or> (E 0 \<and> E 1 \<and> A 2)"
  then consider "A 0" | "E 0 \<and> A 1" | "E 0 \<and> E 1 \<and> A 2" by blast
  then show "\<exists>i<3. A i \<and> (\<forall>j<i. E j)"
  proof cases
    case 1
    then have "(0::nat) < 3 \<and> A 0 \<and> (\<forall>j<0. E j)" by simp
    then show ?thesis by blast
  next
    case 2
    have "E j" if "j < 1" for j using that 2 by simp
    with 2 have "(1::nat) < 3 \<and> A 1 \<and> (\<forall>j<1. E j)" by simp
    then show ?thesis by blast
  next
    case 3
    have "E j" if "j < 2" for j
    proof -
      from that have "j = 0 \<or> j = 1" by linarith
      with 3 show ?thesis by auto
    qed
    with 3 have "(2::nat) < 3 \<and> A 2 \<and> (\<forall>j<2. E j)" by simp
    then show ?thesis by blast
  qed
qed

lemma compareVersions_integers:
  assumes "current \<noteq> js ''unknown''"
    and "\<forall>i<3. int_component current i = Some (a i) \<and> int_component latest i = Some (b i)"
  shows "compareVersions current latest \<longleftrightarrow> (\<exists>i<3. a i < b i \<and> (\<forall>j<i. a j = b j))"
proof -
  have c: "component current i = Finite (of_int (a i))" "component latest i = Finite (of_int (b i))"
    if "i < 3" for i
    using assms(2) that by (simp_all add: component_int)
  have P: "js_less (component current i) (component latest i) \<longleftrightarrow> a i < b i" if "i < 3" for i
    using c [OF that] by simp
  have D: "\<not> decides current latest i \<longleftrightarrow> a i = b i" if "i < 3" for i
    using c [OF that] by (auto simp: decides_def)
  have "compareVersions current latest \<longleftrightarrow>
      a 0 < b 0 \<or> (a 0 = b 0 \<and> a 1 < b 1) \<or> (a 0 = b 0 \<and> a 1 = b 1 \<and> a 2 < b 2)"
    unfolding compareVersions_first_decides [OF assms(1)]
    using P [of 0] P [of 1] P [of 2] D [of 0] D [of 1] by simp
  then show ?thesis unfolding lex3 [of "\<lambda>i. a i < b i" "\<lambda>j. a j = b j"] .
qed

section \<open>Facts about the parser\<close>

lemma split_not_Nil: "split sep s \<noteq> []"
  by (induction s) (auto split: list.splits)

lemma hd_split: "hd (split sep s) = takeWhile (\<lambda>c. c \<noteq> sep) s"
  using split_not_Nil [of sep] by (induction s) (auto split: list.splits)

lemma tl_split:
  "tl (split sep s) =
     (if sep \<in> set s then split sep (drop 1 (dropWhile (\<lambda>c. c \<noteq> sep) s)) else [])"
  using split_not_Nil [of sep] by (induction s) (auto split: list.splits)

lemma array_at_split_1:
  "array_at (split sep s) 1 =
     (if sep \<in> set s
      then Some (takeWhile (\<lambda>c. c \<noteq> sep) (drop 1 (dropWhile (\<lambda>c. c \<noteq> sep) s)))
      else None)"
proof -
  obtain x xs where x: "split sep s = x # xs" using split_not_Nil [of sep s] by (cases "split sep s") auto
  then have xs: "xs = tl (split sep s)" by simp
  show ?thesis
  proof (cases "sep \<in> set s")
    case True
    let ?r = "drop 1 (dropWhile (\<lambda>c. c \<noteq> sep) s)"
    from True xs have "xs = split sep ?r" by (simp add: tl_split)
    moreover obtain y ys where "split sep ?r = y # ys"
      using split_not_Nil [of sep ?r] by (cases "split sep ?r") auto
    moreover from this have "y = hd (split sep ?r)" by simp
    ultimately show ?thesis using True x by (simp add: array_at_def hd_split)
  next
    case False
    with xs have "xs = []" by (simp add: tl_split)
    with False x show ?thesis by (simp add: array_at_def)
  qed
qed

lemma join_split: "join sep (split sep s) = s"
proof (induction s)
  case Nil
  then show ?case by simp
next
  case (Cons c cs)
  obtain x xs where x: "split sep cs = x # xs"
    using split_not_Nil [of sep cs] by (cases "split sep cs") auto
  with Cons show ?case by (cases xs) auto
qed

lemma split_no_sep: "l \<in> set (split sep s) \<Longrightarrow> sep \<notin> set l"
proof (induction s arbitrary: l)
  case Nil
  then show ?case by simp
next
  case (Cons c cs)
  obtain x xs where x: "split sep cs = x # xs"
    using split_not_Nil [of sep cs] by (cases "split sep cs") auto
  with Cons.IH have "sep \<notin> set x" "\<And>l. l \<in> set xs \<Longrightarrow> sep \<notin> set l" by auto
  with Cons.prems x show ?case by (auto split: if_splits)
qed

lemma trim_Nil_iff: "trim line \<noteq> [] \<longleftrightarrow> visible line"
proof
  assume "trim line \<noteq> []"
  then have "dropWhile isWhiteSpace line \<noteq> []" by (auto simp: trim_def dest: set_dropWhileD)
  then have "\<not> (\<forall>c\<in>set line. isWhiteSpace c)" by simp
  then show "visible line" by (simp add: visible_def)
next
  assume "visible line"
  then have ne: "dropWhile isWhiteSpace line \<noteq> []" by (auto simp: visible_def dropWhile_eq_Nil_conv)
  then have "\<not> isWhiteSpace (hd (dropWhile isWhiteSpace line))" by (rule hd_dropWhile)
  with ne have "\<exists>c\<in>set (dropWhile isWhiteSpace line). \<not> isWhiteSpace c"
    using hd_in_set by blast
  then show "trim line \<noteq> []" by (auto simp: trim_def dropWhile_eq_Nil_conv)
qed

lemma second_field_no_space:
  assumes "0x20 \<notin> set s"
  shows "second_field s = []"
proof -
  from assms have "\<forall>c\<in>set s. c \<noteq> 0x20" by blast
  then have d: "dropWhile (\<lambda>c. c \<noteq> 0x20) s = []" by (simp only: dropWhile_eq_Nil_conv)
  show ?thesis unfolding second_field_def after_first_space_def first_field_def d by simp
qed

lemma parseLine_fields: "parseLine line = fields_parseLine line"
proof (cases "0x20 \<in> set (cleanLine line)")
  case True
  then show ?thesis
    by (simp add: parseLine_def fields_parseLine_def Let_def hd_split
        array_at_split_1 [unfolded One_nat_def]
        first_field_def second_field_def after_first_space_def)
next
  case False
  then show ?thesis
    using second_field_no_space [of "cleanLine line"]
    by (simp add: parseLine_def fields_parseLine_def Let_def hd_split
        array_at_split_1 [unfolded One_nat_def] first_field_def)
qed

lemma cleanLine_spec:
  "\<exists>pre. line = pre @ cleanLine line \<and> (\<forall>c\<in>set pre. c = 0x3E \<or> isWhiteSpace c) \<and>
     (cleanLine line = [] \<or> \<not> (hd (cleanLine line) = 0x3E \<or> isWhiteSpace (hd (cleanLine line))))"
proof -
  let ?m = "\<lambda>c. c = 0x3E \<or> isWhiteSpace c"
  have "line = takeWhile ?m line @ cleanLine line" by (simp add: cleanLine_def)
  moreover have "\<forall>c\<in>set (takeWhile ?m line). ?m c" by (auto dest: set_takeWhileD)
  moreover have "cleanLine line = [] \<or> \<not> ?m (hd (cleanLine line))"
    unfolding cleanLine_def using hd_dropWhile [of ?m line] by blast
  ultimately show ?thesis by blast
qed

section \<open>Facts about the session\<close>

lemma events_emit [simp]: "events (emit e p) = events p @ [e]"
  by (simp add: emit_def)

lemma cwd_emit [simp]: "cwd (emit e p) = cwd p"
  by (simp add: emit_def)

lemma added_append: "events p' = events p @ t \<Longrightarrow> added p p' = t"
  by (simp add: added_def)

lemma execs_append: "execs (a @ b) = execs a @ execs b"
  by (induction a rule: execs.induct) simp_all

lemma exec_dirs_append: "exec_dirs (a @ b) = exec_dirs a @ exec_dirs b"
  by (induction a rule: exec_dirs.induct) simp_all

lemma updatePlugin_cases:
  obtains
    (remove_failed) message where
      "updatePlugin env pluginId p =
         (False, p\<lparr>events := events p @
            [Log (0x0A # js ''Updating '' @ pluginId @ js ''...''),
             Exec (removeCommand pluginId) (cwd p) (Rejected message),
             LogError (red @ js ''Failed to update '' @ pluginId @ js '': ''
                         @ Error_toString message @ reset)]\<rparr>)"
  | (add_failed) out message where
      "updatePlugin env pluginId p =
         (False, p\<lparr>events := events p @
            [Log (0x0A # js ''Updating '' @ pluginId @ js ''...''),
             Exec (removeCommand pluginId) (cwd p) (Resolved out),
             Exec (addCommand pluginId) (cwd p) (Rejected message),
             LogError (red @ js ''Failed to update '' @ pluginId @ js '': ''
                         @ Error_toString message @ reset)]\<rparr>)"
  | (updated) out out' where
      "updatePlugin env pluginId p =
         (True, p\<lparr>events := events p @
            [Log (0x0A # js ''Updating '' @ pluginId @ js ''...''),
             Exec (removeCommand pluginId) (cwd p) (Resolved out),
             Exec (addCommand pluginId) (cwd p) (Resolved out'),
             Log (green @ js ''Successfully updated '' @ pluginId @ reset)]\<rparr>)"
proof -
  let ?p1 = "console_log (0x0A # js ''Updating '' @ pluginId @ js ''...'') p"
  let ?r1 = "subprocess env ?p1 (removeCommand pluginId)"
  let ?p2 = "emit (Exec (removeCommand pluginId) (cwd ?p1) ?r1) ?p1"
  let ?r2 = "subprocess env ?p2 (addCommand pluginId)"
  show thesis
  proof (cases ?r1)
    case (Rejected message)
    then have "updatePlugin env pluginId p =
         (False, p\<lparr>events := events p @
            [Log (0x0A # js ''Updating '' @ pluginId @ js ''...''),
             Exec (removeCommand pluginId) (cwd p) (Rejected message),
             LogError (red @ js ''Failed to update '' @ pluginId @ js '': ''
                         @ Error_toString message @ reset)]\<rparr>)"
      by (simp add: updatePlugin_def execPromise_def console_log_def console_error_def emit_def
          removeCommand_def Let_def)
    then show thesis by (rule remove_failed)
  next
    case r1: (Resolved out)
    show thesis
    proof (cases ?r2)
      case (Rejected message)
      with r1 have "updatePlugin env pluginId p =
         (False, p\<lparr>events := events p @
            [Log (0x0A # js ''Updating '' @ pluginId @ js ''...''),
             Exec (removeCommand pluginId) (cwd p) (Resolved out),
             Exec (addCommand pluginId) (cwd p) (Rejected message),
             LogError (red @ js ''Failed to update '' @ pluginId @ js '': ''
                         @ Error_toString message @ reset)]\<rparr>)"
        by (simp add: updatePlugin_def execPromise_def console_log_def console_error_def emit_def
            removeCommand_def addCommand_def Let_def)
      then show thesis by (rule add_failed)
    next
      case (Resolved out')
      with r1 have "updatePlugin env pluginId p =
         (True, p\<lparr>events := events p @
            [Log (0x0A # js ''Updating '' @ pluginId @ js ''...''),
             Exec (removeCommand pluginId) (cwd p) (Resolved out),
             Exec (addCommand pluginId) (cwd p) (Resolved out'),
             Log (green @ js ''Successfully updated '' @ pluginId @ reset)]\<rparr>)"
        by (simp add: updatePlugin_def execPromise_def console_log_def console_error_def emit_def
            removeCommand_def addCommand_def Let_def)
      then show thesis by (rule updated)
    qed
  qed
qed

lemma updatePlugin_events:
  "\<exists>u. events (snd (updatePlugin env pluginId p)) = events p @ u \<and>
       cwd (snd (updatePlugin env pluginId p)) = cwd p \<and>
       (\<forall>e\<in>set u. \<not> is_question e) \<and> update_execs pluginId (execs u) \<and>
       set (exec_dirs u) \<subseteq> {cwd p}"
proof (cases rule: updatePlugin_cases [of env pluginId p])
  case (remove_failed message)
  then show ?thesis by (simp add: update_execs_def is_question_def)
next
  case (add_failed out message)
  then show ?thesis by (simp add: update_execs_def is_question_def)
next
  case (updated out out')
  then show ?thesis by (simp add: update_execs_def is_question_def)
qed

lemma toLowerCase_y: "toLowerCase answer = js ''y'' \<longleftrightarrow> affirmative answer"
proof -
  have one: "(if 0x41 \<le> c \<and> c \<le> 0x5A then c + 0x20 else c) = 0x79 \<longleftrightarrow> c = 0x79 \<or> c = 0x59"
    for c :: jschar
  proof -
    have "c + 0x20 = 0x79 \<longleftrightarrow> c = 0x59"
    proof
      assume "c + 0x20 = 0x79"
      then have "c + 0x20 - 0x20 = 0x79 - 0x20" by simp
      then show "c = 0x59" by simp
    qed simp
    then show ?thesis by (auto simp: word_le_def)
  qed
  show ?thesis
  proof (cases answer)
    case Nil
    then show ?thesis by (simp add: toLowerCase_def js_def affirmative_def)
  next
    case (Cons c cs)
    then show ?thesis
      using one [of c] by (cases cs) (auto simp: toLowerCase_def js_def affirmative_def)
  qed
qed

lemma blocks_no_question: "\<forall>e\<in>set u. \<not> is_question e \<Longrightarrow> blocks (u @ t) = blocks t"
proof (induction u)
  case Nil
  then show ?case by simp
next
  case (Cons e u)
  then show ?case by (cases e) (simp_all add: is_question_def)
qed

lemma takeWhile_no_question:
  assumes "\<forall>e\<in>set u. \<not> is_question e" and "t = [] \<or> is_question (hd t)"
  shows "takeWhile (\<lambda>e. \<not> is_question e) (u @ t) = u"
proof -
  from assms(2) have "takeWhile (\<lambda>e. \<not> is_question e) t = []" by (cases t) auto
  with assms(1) show ?thesis by (simp add: takeWhile_append2)
qed

lemma execs_blocks_aux:
  "execs t = execs (takeWhile (\<lambda>e. \<not> is_question e) t)
               @ concat (map (\<lambda>(query, answer, u). execs u) (blocks t))"
proof (induction t)
  case Nil
  then show ?case by simp
next
  case (Cons e t)
  then show ?case by (cases e) (simp_all add: is_question_def)
qed

lemma execs_blocks:
  assumes "t = [] \<or> is_question (hd t)"
  shows "execs t = concat (map (\<lambda>(query, answer, u). execs u) (blocks t))"
proof -
  from assms have "takeWhile (\<lambda>e. \<not> is_question e) t = []" by (cases t) auto
  with execs_blocks_aux [of t] show ?thesis by simp
qed

lemma mentions_questionText:
  "mentions (questionText r) (plugin r)" "mentions (questionText r) (currentVersion r)"
  "latestVersion r = Some v \<Longrightarrow> mentions (questionText r) v"
proof -
  let ?lv = "case latestVersion r of None \<Rightarrow> js ''undefined'' | Some v \<Rightarrow> v"
  have "questionText r = (0x0A # js ''Do you want to update '') @ plugin r
      @ (js '' from '' @ currentVersion r @ js '' to '' @ ?lv @ js ''? (y/n): '')"
    by (simp add: questionText_def)
  then show "mentions (questionText r) (plugin r)" unfolding mentions_def by blast
  have "questionText r = (0x0A # js ''Do you want to update '' @ plugin r @ js '' from '')
      @ currentVersion r @ (js '' to '' @ ?lv @ js ''? (y/n): '')"
    by (simp add: questionText_def)
  then show "mentions (questionText r) (currentVersion r)" unfolding mentions_def by blast
  assume "latestVersion r = Some v"
  then have "questionText r = (0x0A # js ''Do you want to update '' @ plugin r @ js '' from ''
      @ currentVersion r @ js '' to '') @ v @ js ''? (y/n): ''"
    by (simp add: questionText_def)
  then show "mentions (questionText r) v" unfolding mentions_def by blast
qed

lemma prompt_block_intro:
  assumes "affirmative answer \<longrightarrow> update_execs (plugin r) (execs u)"
    and "\<not> affirmative answer \<longrightarrow> u = []"
  shows "prompt_block r (questionText r, answer, u)"
  using assms mentions_questionText [of r] by (simp add: prompt_block_def)

lemma promptEach_trace:
  "\<exists>t. events (promptEach env rs p) = events p @ t \<and> cwd (promptEach env rs p) = cwd p \<and>
       list_all2 prompt_block rs (blocks t) \<and> (t = [] \<or> is_question (hd t)) \<and>
       set (exec_dirs t) \<subseteq> {cwd p}"
proof (induction rs arbitrary: p)
  case Nil
  then show ?case by simp
next
  case (Cons r rest)
  let ?q = "questionText r"
  let ?a = "operator env p ?q"
  let ?p1 = "emit (Question ?q ?a) p"
  have q: "0x0A # js ''Do you want to update '' @ plugin r @ js '' from ''
                @ currentVersion r @ js '' to '' @ template (latestVersion r)
                @ js ''? (y/n): '' = ?q"
    by (simp add: questionText_def template_def)
  show ?case
  proof (cases "affirmative ?a")
    case True
    let ?p2 = "snd (updatePlugin env (plugin r) ?p1)"
    from updatePlugin_events [of env "plugin r" ?p1] obtain u where
      u: "events ?p2 = events ?p1 @ u" "cwd ?p2 = cwd ?p1" "\<forall>e\<in>set u. \<not> is_question e"
         "update_execs (plugin r) (execs u)" "set (exec_dirs u) \<subseteq> {cwd ?p1}" by blast
    from Cons.IH [of ?p2] obtain t where
      t: "events (promptEach env rest ?p2) = events ?p2 @ t" "cwd (promptEach env rest ?p2) = cwd ?p2"
         "list_all2 prompt_block rest (blocks t)" "t = [] \<or> is_question (hd t)"
         "set (exec_dirs t) \<subseteq> {cwd ?p2}" by blast
    have step: "promptEach env (r # rest) p = promptEach env rest ?p2"
      using True unfolding promptEach.simps q by (simp add: question_def toLowerCase_y Let_def)
    have ev: "events (promptEach env (r # rest) p) = events p @ (Question ?q ?a # u @ t)"
      unfolding step by (simp add: t(1) u(1))
    have cw: "cwd (promptEach env (r # rest) p) = cwd p"
      unfolding step by (simp add: t(2) u(2))
    have tw: "takeWhile (\<lambda>e. \<not> is_question e) (u @ t) = u"
      using u(3) t(4) by (rule takeWhile_no_question)
    have bl: "blocks (u @ t) = blocks t"
      using u(3) by (rule blocks_no_question)
    have "prompt_block r (?q, ?a, u)"
      using True u(4) by (intro prompt_block_intro) simp_all
    with t(3) have la: "list_all2 prompt_block (r # rest) (blocks (Question ?q ?a # u @ t))"
      by (simp add: tw bl)
    have "set (exec_dirs (Question ?q ?a # u @ t)) \<subseteq> {cwd p}"
      using u(5) t(5) by (simp add: exec_dirs_append u(2))
    with ev cw la show ?thesis
      by (intro exI [of _ "Question ?q ?a # u @ t"]) (simp add: is_question_def)
  next
    case False
    from Cons.IH [of ?p1] obtain t where
      t: "events (promptEach env rest ?p1) = events ?p1 @ t" "cwd (promptEach env rest ?p1) = cwd ?p1"
         "list_all2 prompt_block rest (blocks t)" "t = [] \<or> is_question (hd t)"
         "set (exec_dirs t) \<subseteq> {cwd ?p1}" by blast
    have step: "promptEach env (r # rest) p = promptEach env rest ?p1"
      using False unfolding promptEach.simps q by (simp add: question_def toLowerCase_y Let_def)
    have ev: "events (promptEach env (r # rest) p) = events p @ (Question ?q ?a # t)"
      unfolding step by (simp add: t(1))
    have cw: "cwd (promptEach env (r # rest) p) = cwd p"
      unfolding step by (simp add: t(2))
    have tw: "takeWhile (\<lambda>e. \<not> is_question e) t = []"
      using t(4) by (cases t) auto
    have "prompt_block r (?q, ?a, [])"
      using False by (intro prompt_block_intro) simp_all
    with t(3) have la: "list_all2 prompt_block (r # rest) (blocks (Question ?q ?a # t))"
      by (simp add: tw)
    have "set (exec_dirs (Question ?q ?a # t)) \<subseteq> {cwd p}"
      using t(5) by simp
    with ev cw la show ?thesis
      by (intro exI [of _ "Question ?q ?a # t"]) (simp add: is_question_def)
  qed
qed

lemma checkEach_trace:
  assumes "\<forall>pl\<in>set plugins. plugin_id pl \<noteq> [] \<and> plugin_id pl \<noteq> js ''undefined''"
  shows "\<exists>t. events (snd (checkEach env plugins acc p)) = events p @ t \<and>
             cwd (snd (checkEach env plugins acc p)) = cwd p \<and>
             map fst (execs t) = map (\<lambda>pl. viewCommand (plugin_id pl)) plugins \<and>
             fst (checkEach env plugins acc p)
               = acc @ map (\<lambda>(pl, x). result_for pl (snd x)) (zip plugins (execs t)) \<and>
             set (exec_dirs t) \<subseteq> {cwd p}"
  using assms
proof (induction plugins arbitrary: acc p)
  case Nil
  then show ?case by simp
next
  case (Cons pl rest)
  then have valid: "plugin_id pl \<noteq> []" "plugin_id pl \<noteq> js ''undefined''"
    and rest: "\<forall>pl\<in>set rest. plugin_id pl \<noteq> [] \<and> plugin_id pl \<noteq> js ''undefined''"
    by simp_all
  let ?c = "viewCommand (plugin_id pl)"
  let ?r = "subprocess env p ?c"
  let ?p1 = "emit (Exec ?c (cwd p) ?r) p"
  show ?case
  proof (cases ?r)
    case (Resolved npmInfo)
    let ?acc = "acc @ [result_for pl ?r]"
    have step: "checkEach env (pl # rest) acc p = checkEach env rest ?acc ?p1"
      using valid Resolved
      by (simp add: execPromise_def viewCommand_def [symmetric] result_for_def Let_def)
    from Cons.IH [OF rest, of ?acc ?p1] obtain t where
      t: "events (snd (checkEach env rest ?acc ?p1)) = events ?p1 @ t"
         "cwd (snd (checkEach env rest ?acc ?p1)) = cwd ?p1"
         "map fst (execs t) = map (\<lambda>pl. viewCommand (plugin_id pl)) rest"
         "fst (checkEach env rest ?acc ?p1)
            = ?acc @ map (\<lambda>(pl, x). result_for pl (snd x)) (zip rest (execs t))"
         "set (exec_dirs t) \<subseteq> {cwd ?p1}" by blast
    show ?thesis
      unfolding step using t
      by (intro exI [of _ "Exec ?c (cwd p) ?r # t"]) simp
  next
    case (Rejected err)
    let ?acc = "acc @ [result_for pl ?r]"
    let ?p2 = "console_error (js ''Error checking plugin '' @ plugin_id pl @ js '': ''
                                   @ Error_toString err) ?p1"
    have step: "checkEach env (pl # rest) acc p = checkEach env rest ?acc ?p2"
      using valid Rejected
      by (simp add: execPromise_def viewCommand_def [symmetric] result_for_def Let_def)
    from Cons.IH [OF rest, of ?acc ?p2] obtain t where
      t: "events (snd (checkEach env rest ?acc ?p2)) = events ?p2 @ t"
         "cwd (snd (checkEach env rest ?acc ?p2)) = cwd ?p2"
         "map fst (execs t) = map (\<lambda>pl. viewCommand (plugin_id pl)) rest"
         "fst (checkEach env rest ?acc ?p2)
            = ?acc @ map (\<lambda>(pl, x). result_for pl (snd x)) (zip rest (execs t))"
         "set (exec_dirs t) \<subseteq> {cwd ?p2}" by blast
    show ?thesis
      unfolding step using t
      by (intro exI [of _ "Exec ?c (cwd p) ?r # LogError (js ''Error checking plugin ''
            @ plugin_id pl @ js '': '' @ Error_toString err) # t"])
         (simp add: console_error_def)
  qed
qed

lemma parsePluginList_valid:
  "\<forall>pl\<in>set (parsePluginList output). plugin_id pl \<noteq> [] \<and> plugin_id pl \<noteq> js ''undefined''"
  by (simp add: parsePluginList_def)

lemma checkPluginUpdates_missing_path:
  assumes "\<not> existsSync env projectPath"
  shows "checkPluginUpdates env projectPath p = (Inl (rethrow (missingPathMessage projectPath)), p)"
  using assms by (simp add: checkPluginUpdates_def missingPathMessage_def)

lemma checkPluginUpdates_missing_manifest:
  assumes "existsSync env projectPath"
    and "\<not> existsSync env (path_join env projectPath (js ''config.xml''))"
  shows "checkPluginUpdates env projectPath p
           = (Inl (rethrow (missingManifestMessage projectPath)), p)"
  using assms by (simp add: checkPluginUpdates_def missingManifestMessage_def)

lemma messages_distinct:
  "rethrow (missingPathMessage projectPath) \<noteq> rethrow (missingManifestMessage projectPath)"
  by (simp add: rethrow_def missingPathMessage_def missingManifestMessage_def js_def)

lemma checkUpdates_fatal:
  assumes "checkPluginUpdates env (targetPath env p0)
             (console_log (js ''Checking plugins in project: '' @ targetPath env p0) p0)
           = (Inl message, p2)"
  shows "checkUpdates env p0 = emit (Exit 1) (emit Close (console_error (fatalReport message) p2))"
  using assms by (simp add: checkUpdates_def fatalReport_def Let_def)

lemma checkPluginUpdates_listing:
  assumes "existsSync env projectPath"
    and "existsSync env (path_join env projectPath (js ''config.xml''))"
  shows "\<exists>r t. events (snd (checkPluginUpdates env projectPath p))
                 = events p @ Exec (js ''cordova plugin list'') projectPath r # t \<and>
               cwd (snd (checkPluginUpdates env projectPath p)) = projectPath \<and>
               set (exec_dirs t) \<subseteq> {projectPath}"
proof -
  let ?p1 = "chdir projectPath p"
  let ?c = "js ''cordova plugin list''"
  let ?r = "subprocess env ?p1 ?c"
  let ?p2 = "emit (Exec ?c projectPath ?r) ?p1"
  have p2: "events ?p2 = events p @ [Exec ?c projectPath ?r]" "cwd ?p2 = projectPath"
    by (simp_all add: chdir_def)
  show ?thesis
  proof (cases ?r)
    case (Rejected message)
    with assms have "checkPluginUpdates env projectPath p = (Inl (rethrow message), ?p2)"
      by (simp add: checkPluginUpdates_def execPromise_def chdir_def Let_def)
    with p2 show ?thesis by simp
  next
    case (Resolved pluginListOutput)
    let ?plugins = "parsePluginList pluginListOutput"
    from Resolved assms
    have step: "snd (checkPluginUpdates env projectPath p) = snd (checkEach env ?plugins [] ?p2)"
      by (simp add: checkPluginUpdates_def execPromise_def chdir_def Let_def split: prod.splits)
    from checkEach_trace [OF parsePluginList_valid, where env = env and acc = "[]" and p = ?p2
        and output1 = pluginListOutput] obtain t where
      "events (snd (checkEach env ?plugins [] ?p2)) = events ?p2 @ t"
      "cwd (snd (checkEach env ?plugins [] ?p2)) = cwd ?p2"
      "set (exec_dirs t) \<subseteq> {cwd ?p2}" by blast
    with p2 show ?thesis unfolding step by simp
  qed
qed

lemma report_trace:
  "\<exists>t. events (snd (report results acc p)) = events p @ t \<and> cwd (snd (report results acc p)) = cwd p \<and>
       exec_dirs t = []"
proof (induction results arbitrary: acc p)
  case Nil
  then show ?case by simp
next
  case (Cons result rest)
  show ?case
  proof (cases "\<exists>c cs. error result = Some (c # cs)")
    case True
    then obtain c cs where e: "error result = Some (c # cs)" by blast
    let ?p1 = "console_log (red @ plugin result @ js '': '' @ (c # cs) @ reset) p"
    from Cons [of acc ?p1] obtain t where
      "events (snd (report rest acc ?p1)) = events ?p1 @ t"
      "cwd (snd (report rest acc ?p1)) = cwd ?p1" "exec_dirs t = []" by blast
    with e show ?thesis
      by (intro exI [of _ "Log (red @ plugin result @ js '': '' @ (c # cs) @ reset) # t"])
         (simp add: console_log_def)
  next
    case False
    let ?acc = "if hasUpdate result = Some True then acc @ [result] else acc"
    let ?p1 = "console_log (reportText result) p"
    from False have step: "report (result # rest) acc p = report rest ?acc ?p1"
      by (auto split: option.splits list.splits)
    from Cons [of ?acc ?p1] obtain t where
      "events (snd (report rest ?acc ?p1)) = events ?p1 @ t"
      "cwd (snd (report rest ?acc ?p1)) = cwd ?p1" "exec_dirs t = []" by blast
    then show ?thesis
      unfolding step
      by (intro exI [of _ "Log (reportText result) # t"]) (simp add: console_log_def)
  qed
qed

lemma checkUpdates_cwd:
  assumes "existsSync env (targetPath env p0)"
    and "existsSync env (path_join env (targetPath env p0) (js ''config.xml''))"
  shows "cwd (checkUpdates env p0) = targetPath env p0 \<and>
         (\<exists>t. events (checkUpdates env p0) = events p0 @ t \<and>
              set (exec_dirs t) \<subseteq> {targetPath env p0})"
proof -
  let ?path = "targetPath env p0"
  let ?m = "js ''Checking plugins in project: '' @ ?path"
  let ?p1 = "console_log ?m p0"
  obtain res p2 where c: "checkPluginUpdates env ?path ?p1 = (res, p2)" by (cases "checkPluginUpdates env ?path ?p1")
  from checkPluginUpdates_listing [OF assms, of ?p1] c obtain r t where
    p2: "events p2 = events ?p1 @ Exec (js ''cordova plugin list'') ?path r # t"
        "cwd p2 = ?path" "set (exec_dirs t) \<subseteq> {?path}" by auto
  let ?t2 = "Log ?m # Exec (js ''cordova plugin list'') ?path r # t"
  have e2: "events p2 = events p0 @ ?t2" using p2(1) by (simp add: console_log_def)
  have d2: "set (exec_dirs ?t2) \<subseteq> {?path}" using p2(3) by simp
  show ?thesis
  proof (cases res)
    case (Inl message)
    with c have "checkUpdates env p0 = emit (Exit 1) (emit Close (console_error (fatalReport message) p2))"
      by (simp add: checkUpdates_fatal)
    with p2(2) e2 d2 show ?thesis
      by (intro conjI exI [of _ "?t2 @ [LogError (fatalReport message), Close, Exit 1]"])
         (simp_all add: console_error_def exec_dirs_append)
  next
    case (Inr results)
    let ?p3 = "console_log (0x0A # js ''Plugin Update Check Results:'') p2"
    obtain todo p4 where rp: "report results [] ?p3 = (todo, p4)" by (cases "report results [] ?p3")
    from report_trace [of results "[]" ?p3] rp obtain t4 where
      p4: "events p4 = events ?p3 @ t4" "cwd p4 = cwd ?p3" "exec_dirs t4 = []" by auto
    let ?p5 = "if todo \<noteq> [] then promptEach env todo p4
               else console_log (0x0A # js ''All plugins are up to date!'') p4"
    have cu: "checkUpdates env p0 = emit Close ?p5"
      using c Inr rp by (simp add: checkUpdates_def Let_def)
    have "\<exists>t5. events ?p5 = events p4 @ t5 \<and> cwd ?p5 = cwd p4 \<and> set (exec_dirs t5) \<subseteq> {cwd p4}"
    proof (cases "todo = []")
      case True
      then show ?thesis by (simp add: console_log_def)
    next
      case False
      with promptEach_trace [of env todo p4] show ?thesis by auto
    qed
    then obtain t5 where
      p5: "events ?p5 = events p4 @ t5" "cwd ?p5 = cwd p4" "set (exec_dirs t5) \<subseteq> {cwd p4}" by blast
    let ?t = "?t2 @ Log (0x0A # js ''Plugin Update Check Results:'') # t4 @ t5 @ [Close]"
    have "events (checkUpdates env p0) = events p0 @ ?t"
      unfolding cu using p5(1) p4(1) e2 by (simp add: console_log_def)
    moreover have "cwd (checkUpdates env p0) = ?path"
      unfolding cu using p5(2) p4(2) p2(2) by (simp add: console_log_def)
    moreover have "set (exec_dirs ?t) \<subseteq> {?path}"
      using d2 p4(3) p5(3) p4(2) p2(2) by (simp add: exec_dirs_append console_log_def)
    ultimately show ?thesis by blast
  qed
qed


section \<open>The version comparator: properties\<close>

text \<open>
  C1, as amended. For version strings \<open>current\<close> and \<open>latest\<close> with \<open>current\<close> not
  \<open>"unknown"\<close>, \<open>compareVersions\<close> compares the Numbers of the first three dot-separated
  segments in the order major, minor, patch: at the first component that decides it returns
  true when \<open>latest\<close> is greater and false when \<open>latest\<close> is less, and it returns false when
  the three components are equal. A segment of decimal digits that denotes an integer below
  \<open>2 ^ 53\<close> is read as that integer; when the first three segments of both strings are such,
  the result is true exactly when the triple of \<open>latest\<close> is greater than the triple of
  \<open>current\<close> in the lexicographic order of the integers.
\<close>

theorem compareVersions_componentwise:
  assumes "current \<noteq> js ''unknown''"
  shows "(\<forall>i<3. (\<forall>j<i. \<not> decides current latest j) \<longrightarrow>
            (js_less (component current i) (component latest i) \<longrightarrow>
               compareVersions current latest) \<and>
            (js_less (component latest i) (component current i) \<longrightarrow>
               \<not> compareVersions current latest)) \<and>
         ((\<forall>i<3. component latest i = component current i) \<longrightarrow>
            \<not> compareVersions current latest) \<and>
         (\<forall>v\<in>{current, latest}. \<forall>i<3. \<forall>n. int_component v i = Some n \<longrightarrow>
            component v i = Finite (of_int n)) \<and>
         (\<forall>a b. (\<forall>i<3. int_component current i = Some (a i) \<and>
                          int_component latest i = Some (b i)) \<longrightarrow>
            (compareVersions current latest \<longleftrightarrow> (\<exists>i<3. a i < b i \<and> (\<forall>j<i. a j = b j))))"
proof (intro conjI allI impI ballI)
  fix i :: nat
  assume i: "i < 3" and none: "\<forall>j<i. \<not> decides current latest j"
  from i consider "i = 0" | "i = 1" | "i = 2" by linarith
  then have first: "compareVersions current latest =
      (if js_less (component current i) (component latest i) then True
       else if js_less (component latest i) (component current i) then False
       else compareVersions current latest)"
  proof cases
    case 1
    then show ?thesis by (simp add: compareVersions_unfold [OF assms])
  next
    case 2
    with none have "\<not> decides current latest 0" by simp
    with 2 show ?thesis by (simp add: compareVersions_unfold [OF assms] decides_def)
  next
    case 3
    with none have "\<not> decides current latest 0" "\<not> decides current latest 1" by simp_all
    with 3 show ?thesis by (simp add: compareVersions_unfold [OF assms] decides_def)
  qed
  { assume "js_less (component current i) (component latest i)"
    with first show "compareVersions current latest" by simp }
  { assume lt: "js_less (component latest i) (component current i)"
    then have "\<not> js_less (component current i) (component latest i)" by (rule js_less_asym)
    with first lt show "\<not> compareVersions current latest" by simp }
next
  assume "\<forall>i<3. component latest i = component current i"
  then have "component latest 0 = component current 0" "component latest 1 = component current 1"
    "component latest 2 = component current 2" by simp_all
  then show "\<not> compareVersions current latest"
    by (simp add: compareVersions_unfold [OF assms] js_less_irrefl)
next
  fix v i n
  assume "int_component v i = Some n"
  then show "component v i = Finite (of_int n)" by (rule component_int)
next
  fix a b :: "nat \<Rightarrow> int"
  assume "\<forall>i<3. int_component current i = Some (a i) \<and> int_component latest i = Some (b i)"
  with assms show "compareVersions current latest \<longleftrightarrow> (\<exists>i<3. a i < b i \<and> (\<forall>j<i. a j = b j))"
    by (rule compareVersions_integers)
qed

theorem compareVersions_componentwise_witness:
  "js ''1.9.3'' \<noteq> js ''unknown'' \<and> js ''2.0.0'' \<noteq> js ''unknown'' \<and>
   compareVersions (js ''1.9.3'') (js ''1.10.0'') \<and>
   \<not> compareVersions (js ''2.0.0'') (js ''1.9.9'') \<and>
   \<not> compareVersions (js ''1.9.3'') (js ''1.9.3'') \<and>
   int_component (js ''1.10.0'') 1 = Some 10 \<and>
   component (js ''1.10.0'') 1 = Finite 10"
proof -
  have h: "js ''1.9.3'' \<noteq> js ''unknown''" "js ''2.0.0'' \<noteq> js ''unknown''"
    by (simp_all add: js_def)
  define a :: "nat \<Rightarrow> int" where "a = (\<lambda>i. if i = 0 then 1 else if i = 1 then 9 else 3)"
  define b :: "nat \<Rightarrow> int" where "b = (\<lambda>i. if i = 0 then 1 else if i = 1 then 10 else 0)"
  have ca: "int_component (js ''1.9.3'') 0 = Some 1" "int_component (js ''1.9.3'') 1 = Some 9"
    "int_component (js ''1.9.3'') 2 = Some 3"
    by code_simp+
  have cb: "int_component (js ''1.10.0'') 0 = Some 1" "int_component (js ''1.10.0'') 1 = Some 10"
    "int_component (js ''1.10.0'') 2 = Some 0"
    by code_simp+
  have ab: "int_component (js ''1.9.3'') i = Some (a i) \<and> int_component (js ''1.10.0'') i = Some (b i)"
    if "i < 3" for i
  proof -
    from that consider "i = 0" | "i = 1" | "i = 2" by linarith
    then show ?thesis
    proof cases
      case 1
      with ca(1) cb(1) show ?thesis by (simp add: a_def b_def)
    next
      case 2
      with ca(2) cb(2) show ?thesis by (simp add: a_def b_def)
    next
      case 3
      with ca(3) cb(3) show ?thesis by (simp add: a_def b_def)
    qed
  qed
  have "(1::nat) < 3 \<and> a 1 < b 1 \<and> (\<forall>j<1. a j = b j)" by (simp add: a_def b_def)
  then have "\<exists>i<3. a i < b i \<and> (\<forall>j<i. a j = b j)" by blast
  with ab compareVersions_componentwise [OF h(1), of "js ''1.10.0''"]
  have t: "compareVersions (js ''1.9.3'') (js ''1.10.0'')" by blast
  have "js ''1.10.0'' \<in> {js ''1.9.3'', js ''1.10.0''}" "(1::nat) < 3" by simp_all
  with cb(2) compareVersions_componentwise [OF h(1), of "js ''1.10.0''"]
  have "component (js ''1.10.0'') 1 = Finite (of_int 10)" by blast
  then have c: "component (js ''1.10.0'') 1 = Finite 10" by simp
  have c0: "component (js ''2.0.0'') 0 = Finite 2" "component (js ''1.9.9'') 0 = Finite 1"
    by code_simp+
  have "\<forall>j<0. \<not> decides (js ''2.0.0'') (js ''1.9.9'') j" by simp
  moreover have "js_less (component (js ''1.9.9'') 0) (component (js ''2.0.0'') 0)"
    by (simp add: c0)
  moreover have "(0::nat) < 3" by simp
  ultimately have f: "\<not> compareVersions (js ''2.0.0'') (js ''1.9.9'')"
    using compareVersions_componentwise [OF h(2), of "js ''1.9.9''"] by blast
  have "\<forall>i<3. component (js ''1.9.3'') i = component (js ''1.9.3'') i" by simp
  with compareVersions_componentwise [OF h(1), of "js ''1.9.3''"]
  have e: "\<not> compareVersions (js ''1.9.3'') (js ''1.9.3'')" by blast
  from h t f e cb(2) c show ?thesis by simp
qed

text \<open>
  C1, as stated, fails: the segments are read as doubles, not as integers of any size. The
  major segments \<open>9007199254740992\<close> and \<open>9007199254740993\<close> denote different integers, the
  second the greater, and are read as the same Number, so that the result is false.
\<close>

theorem compareVersions_integer_counterexample:
  "js ''9007199254740992.0.0'' \<noteq> js ''unknown'' \<and>
   segment (js ''9007199254740992.0.0'') 0 = Some (js ''9007199254740992'') \<and>
   segment (js ''9007199254740993.0.0'') 0 = Some (js ''9007199254740993'') \<and>
   decimal_value (js ''9007199254740992'') = 9007199254740992 \<and>
   decimal_value (js ''9007199254740993'') = 9007199254740993 \<and>
   \<not> compareVersions (js ''9007199254740992.0.0'') (js ''9007199254740993.0.0'')"
proof -
  have "js ''9007199254740992.0.0'' \<noteq> js ''unknown''" by (simp add: js_def)
  moreover have "segment (js ''9007199254740992.0.0'') 0 = Some (js ''9007199254740992'')"
    "segment (js ''9007199254740993.0.0'') 0 = Some (js ''9007199254740993'')"
    by code_simp+
  moreover have "decimal_value (js ''9007199254740992'') = 9007199254740992"
    "decimal_value (js ''9007199254740993'') = 9007199254740993"
    by code_simp+
  moreover have "compareVersions (js ''9007199254740992.0.0'') (js ''9007199254740993.0.0'') = False"
    by code_simp
  ultimately show ?thesis by simp
qed

text \<open>
  C2. \<open>compareVersions("unknown", latest)\<close> is true for every \<open>latest\<close>: an unknown installed
  version always has an update available.
\<close>

theorem compareVersions_unknown: "compareVersions (js ''unknown'') latest = True"
  by (simp add: compareVersions_def)

text \<open>
  C3, as amended. For \<open>current\<close> not \<open>"unknown"\<close>: a component that is NaN in either string
  (the segment is missing, or \<open>Number\<close> does not accept it) decides nothing, and when no
  earlier component decided the comparison goes on with the components after it: the result
  is true exactly when, at the first later component that decides, \<open>latest\<close> is greater. It
  is false when the NaN component is the patch, and when the segment is missing from one of
  the strings (every later segment of that string is missing too).
\<close>

theorem compareVersions_nan_component:
  assumes "current \<noteq> js ''unknown''" and "i < 3"
    and "component current i = NaN \<or> component latest i = NaN"
    and "\<forall>j<i. \<not> decides current latest j"
  shows "(compareVersions current latest \<longleftrightarrow>
           (\<exists>k. i < k \<and> k < 3 \<and> js_less (component current k) (component latest k) \<and>
                (\<forall>j. i < j \<and> j < k \<longrightarrow> \<not> decides current latest j))) \<and>
         (i = 2 \<longrightarrow> \<not> compareVersions current latest) \<and>
         (segment current i = None \<or> segment latest i = None \<longrightarrow>
            \<not> compareVersions current latest)"
proof -
  let ?P = "\<lambda>k. js_less (component current k) (component latest k)"
  let ?D = "decides current latest"
  have nd: "\<not> ?D i"
    using assms(3) by (auto simp: decides_def js_less_NaN_right)
  have DP: "\<not> ?P k" if "\<not> ?D k" for k
    using that by (simp add: decides_def)
  note cv = compareVersions_first_decides [OF assms(1), of latest]
  from assms(2) consider "i = 0" | "i = 1" | "i = 2" by linarith
  then have main: "compareVersions current latest \<longleftrightarrow>
           (\<exists>k. i < k \<and> k < 3 \<and> ?P k \<and> (\<forall>j. i < j \<and> j < k \<longrightarrow> \<not> ?D j))"
  proof cases
    case 1
    from nd 1 have "\<not> ?D 0" by simp
    with DP [of 0] DP [of 1] have "compareVersions current latest \<longleftrightarrow> ?P 1 \<or> (?P 2 \<and> \<not> ?D 1)"
      unfolding cv by blast
    then show ?thesis unfolding 1 later_0 [of ?P ?D] .
  next
    case 2
    with assms(4) have "\<not> ?D 0" by simp
    moreover from nd 2 have "\<not> ?D 1" by simp
    ultimately have "compareVersions current latest \<longleftrightarrow> ?P 2"
      using DP [of 0] DP [of 1] unfolding cv by blast
    then show ?thesis unfolding 2 later_1 [of ?P ?D] .
  next
    case 3
    with assms(4) have "\<not> ?D 0" "\<not> ?D 1" by simp_all
    moreover from nd 3 have "\<not> ?D 2" by simp
    ultimately have "\<not> compareVersions current latest"
      using DP [of 0] DP [of 1] DP [of 2] unfolding cv by blast
    then show ?thesis unfolding 3 using later_2 [of ?P ?D] by blast
  qed
  have last: "\<not> compareVersions current latest" if "i = 2"
    using main later_2 [of ?P ?D] unfolding that by blast
  have missing: "\<not> compareVersions current latest"
    if m: "segment current i = None \<or> segment latest i = None"
  proof -
    have "\<not> ?P k" if "i < k" for k
    proof -
      from m that have "segment current k = None \<or> segment latest k = None"
        using segment_None_later [of current i k] segment_None_later [of latest i k] by auto
      then show ?thesis by (auto simp: component_segment js_less_NaN_right)
    qed
    then show ?thesis unfolding main by blast
  qed
  from main last missing show ?thesis by blast
qed

theorem compareVersions_nan_component_witness:
  "js ''1.2.x'' \<noteq> js ''unknown'' \<and> component (js ''1.2.x'') 2 = NaN \<and>
   \<not> compareVersions (js ''1.2.x'') (js ''1.2.4'')"
proof -
  have h: "js ''1.2.x'' \<noteq> js ''unknown''" by (simp add: js_def)
  have n: "component (js ''1.2.x'') 2 = NaN" by code_simp
  have c0: "component (js ''1.2.x'') 0 = Finite 1" "component (js ''1.2.4'') 0 = Finite 1"
    by code_simp+
  have c1: "component (js ''1.2.x'') 1 = Finite 2" "component (js ''1.2.4'') 1 = Finite 2"
    by code_simp+
  have d: "\<forall>j<2. \<not> decides (js ''1.2.x'') (js ''1.2.4'') j"
  proof (intro allI impI)
    fix j :: nat assume "j < 2"
    then have "j = 0 \<or> j = 1" by linarith
    moreover have "\<not> decides (js ''1.2.x'') (js ''1.2.4'') 0" by (simp add: decides_def c0)
    moreover have "\<not> decides (js ''1.2.x'') (js ''1.2.4'') 1" unfolding decides_def c1 by simp
    ultimately show "\<not> decides (js ''1.2.x'') (js ''1.2.4'') j" by auto
  qed
  have "(2::nat) < 3" by simp
  from compareVersions_nan_component [OF h this _ d] n
  have "\<not> compareVersions (js ''1.2.x'') (js ''1.2.4'')" by blast
  with h n show ?thesis by simp
qed

text \<open>
  C3, as stated, fails: in \<open>"1.x.3"\<close> against \<open>"1.2.4"\<close> the minor segment \<open>x\<close> is not
  numeric and the major components are equal, yet the result is true, decided by the patch.
\<close>

theorem compareVersions_nan_counterexample:
  "js ''1.x.3'' \<noteq> js ''unknown'' \<and>
   segment (js ''1.x.3'') 1 = Some (js ''x'') \<and> Number (js ''x'') = NaN \<and>
   \<not> decides (js ''1.x.3'') (js ''1.2.4'') 0 \<and>
   compareVersions (js ''1.x.3'') (js ''1.2.4'')"
proof -
  have "js ''1.x.3'' \<noteq> js ''unknown''" by (simp add: js_def)
  moreover have "segment (js ''1.x.3'') 1 = Some (js ''x'')" by code_simp
  moreover have "Number (js ''x'') = NaN" by code_simp
  moreover have "component (js ''1.x.3'') 0 = Finite 1" "component (js ''1.2.4'') 0 = Finite 1"
    by code_simp+
  then have "\<not> decides (js ''1.x.3'') (js ''1.2.4'') 0" by (simp add: decides_def)
  moreover have "compareVersions (js ''1.x.3'') (js ''1.2.4'')" by code_simp
  ultimately show ?thesis by simp
qed

section \<open>The plugin list parser: properties\<close>

text \<open>
  C4, as amended. \<open>parsePluginList\<close> splits the text on newlines (the lines hold no newline
  and joined by newlines give the text back), keeps the visible lines, removes from each the
  longest prefix of \<open>>\<close> and white space, and splits the cleaned line on every space: the id
  is the text before the first space, the version the text between the first and the second
  space (up to the end when there is no second), \<open>"unknown"\<close> when the line has no space or
  when that text is empty; the records whose id is empty or \<open>"undefined"\<close> are dropped. For
  the empty text the result is empty.
\<close>

theorem parsePluginList_fields:
  "parsePluginList text =
     filter (\<lambda>p. plugin_id p \<noteq> [] \<and> plugin_id p \<noteq> js ''undefined'')
       (map fields_parseLine (filter visible (split 0x0A text))) \<and>
   join 0x0A (split 0x0A text) = text \<and>
   (\<forall>line\<in>set (split 0x0A text). 0x0A \<notin> set line \<and>
      (\<exists>pre. line = pre @ cleanLine line \<and> (\<forall>c\<in>set pre. c = 0x3E \<or> isWhiteSpace c) \<and>
         (cleanLine line = [] \<or>
          \<not> (hd (cleanLine line) = 0x3E \<or> isWhiteSpace (hd (cleanLine line)))))) \<and>
   parsePluginList [] = []"
proof (intro conjI ballI)
  have "(\<lambda>line. trim line \<noteq> []) = visible" by (simp add: trim_Nil_iff fun_eq_iff)
  moreover have "parseLine = fields_parseLine" by (simp add: parseLine_fields fun_eq_iff)
  ultimately show "parsePluginList text =
     filter (\<lambda>p. plugin_id p \<noteq> [] \<and> plugin_id p \<noteq> js ''undefined'')
       (map fields_parseLine (filter visible (split 0x0A text)))"
    by (simp add: parsePluginList_def)
  show "join 0x0A (split 0x0A text) = text" by (rule join_split)
  show "parsePluginList [] = []" by (simp add: parsePluginList_def trim_def)
next
  fix line assume "line \<in> set (split 0x0A text)"
  then show "0x0A \<notin> set line" by (rule split_no_sep)
next
  fix line
  show "\<exists>pre. line = pre @ cleanLine line \<and> (\<forall>c\<in>set pre. c = 0x3E \<or> isWhiteSpace c) \<and>
         (cleanLine line = [] \<or>
          \<not> (hd (cleanLine line) = 0x3E \<or> isWhiteSpace (hd (cleanLine line))))"
    by (rule cleanLine_spec)
qed

theorem parsePluginList_fields_witness:
  "parsePluginList (js ''> a 1.0 x'' @ 0x0A # js ''  '' @ 0x0A # js ''b'')
     = [\<lparr>plugin_id = js ''a'', version = js ''1.0''\<rparr>,
        \<lparr>plugin_id = js ''b'', version = js ''unknown''\<rparr>] \<and>
   js ''  '' \<in> set (split 0x0A (js ''> a 1.0 x'' @ 0x0A # js ''  '' @ 0x0A # js ''b'')) \<and>
   0x0A \<notin> set (js ''  '')"
proof -
  let ?t = "js ''> a 1.0 x'' @ 0x0A # js ''  '' @ 0x0A # js ''b''"
  have "filter (\<lambda>p. plugin_id p \<noteq> [] \<and> plugin_id p \<noteq> js ''undefined'')
       (map fields_parseLine (filter visible (split 0x0A ?t)))
     = [\<lparr>plugin_id = js ''a'', version = js ''1.0''\<rparr>,
        \<lparr>plugin_id = js ''b'', version = js ''unknown''\<rparr>]"
    by code_simp
  moreover have m: "js ''  '' \<in> set (split 0x0A ?t)" by code_simp
  moreover from parsePluginList_fields [of ?t] m have "0x0A \<notin> set (js ''  '')" by blast
  ultimately show ?thesis using parsePluginList_fields [of ?t] by simp
qed

text \<open>
  C4, as stated, fails: the line is not cut in two at its first space. In \<open>"a 1.0 x"\<close> the
  text after the first space is \<open>"1.0 x"\<close>, and the version is \<open>"1.0"\<close>; in \<open>"a  1.0"\<close>,
  with two spaces, a version follows the first space, and the version is \<open>"unknown"\<close>.
\<close>

theorem parsePluginList_first_space_counterexample:
  "parsePluginList (js ''a 1.0 x'') = [\<lparr>plugin_id = js ''a'', version = js ''1.0''\<rparr>] \<and>
   first_space_parseLine (js ''a 1.0 x'') = \<lparr>plugin_id = js ''a'', version = js ''1.0 x''\<rparr> \<and>
   parsePluginList (js ''a  1.0'') = [\<lparr>plugin_id = js ''a'', version = js ''unknown''\<rparr>] \<and>
   first_space_parseLine (js ''a  1.0'') = \<lparr>plugin_id = js ''a'', version = js '' 1.0''\<rparr>"
  by code_simp

text \<open>
  C5. Every record that \<open>parsePluginList\<close> returns has an id that is neither empty nor
  \<open>"undefined"\<close>; the records are those of a subsequence of the lines, in the order of the
  lines; and only the blank lines and the records with such an id are dropped.
\<close>

theorem parsePluginList_invariant:
  "(\<forall>p\<in>set (parsePluginList text). plugin_id p \<noteq> [] \<and> plugin_id p \<noteq> js ''undefined'') \<and>
   (\<exists>ls. subseq ls (split 0x0A text) \<and> parsePluginList text = map parseLine ls) \<and>
   (\<forall>line\<in>set (split 0x0A text).
      trim line \<noteq> [] \<and> plugin_id (parseLine line) \<noteq> [] \<and>
      plugin_id (parseLine line) \<noteq> js ''undefined'' \<longrightarrow>
      parseLine line \<in> set (parsePluginList text))"
proof (intro conjI)
  show "\<forall>p\<in>set (parsePluginList text). plugin_id p \<noteq> [] \<and> plugin_id p \<noteq> js ''undefined''"
    by (simp add: parsePluginList_def)
  let ?keep = "\<lambda>line. trim line \<noteq> [] \<and> plugin_id (parseLine line) \<noteq> [] \<and>
      plugin_id (parseLine line) \<noteq> js ''undefined''"
  have eq: "parsePluginList text = map parseLine (filter ?keep (split 0x0A text))"
    by (simp add: parsePluginList_def filter_map comp_def conj_commute)
  have "subseq (filter ?keep (split 0x0A text)) (split 0x0A text)" by simp
  with eq show "\<exists>ls. subseq ls (split 0x0A text) \<and> parsePluginList text = map parseLine ls"
    by blast
  show "\<forall>line\<in>set (split 0x0A text). ?keep line \<longrightarrow> parseLine line \<in> set (parsePluginList text)"
    unfolding eq by auto
qed

theorem parsePluginList_invariant_witness:
  "parsePluginList (js ''undefined 1.0'' @ 0x0A # js ''>'' @ 0x0A # js ''b 2.0'')
     = [\<lparr>plugin_id = js ''b'', version = js ''2.0''\<rparr>] \<and>
   plugin_id \<lparr>plugin_id = js ''b'', version = js ''2.0''\<rparr> \<noteq> [] \<and>
   plugin_id \<lparr>plugin_id = js ''b'', version = js ''2.0''\<rparr> \<noteq> js ''undefined'' \<and>
   js ''b 2.0'' \<in> set (split 0x0A (js ''undefined 1.0'' @ 0x0A # js ''>'' @ 0x0A # js ''b 2.0'')) \<and>
   parseLine (js ''b 2.0'')
     \<in> set (parsePluginList (js ''undefined 1.0'' @ 0x0A # js ''>'' @ 0x0A # js ''b 2.0''))"
proof -
  let ?t = "js ''undefined 1.0'' @ 0x0A # js ''>'' @ 0x0A # js ''b 2.0''"
  have e: "parsePluginList ?t = [\<lparr>plugin_id = js ''b'', version = js ''2.0''\<rparr>]"
    by code_simp
  from parsePluginList_invariant [of ?t]
  have "\<forall>p\<in>set (parsePluginList ?t). plugin_id p \<noteq> [] \<and> plugin_id p \<noteq> js ''undefined''"
    by blast
  then have v: "plugin_id \<lparr>plugin_id = js ''b'', version = js ''2.0''\<rparr> \<noteq> [] \<and>
    plugin_id \<lparr>plugin_id = js ''b'', version = js ''2.0''\<rparr> \<noteq> js ''undefined''"
    unfolding e by simp
  have m: "js ''b 2.0'' \<in> set (split 0x0A ?t)" by code_simp
  have k: "trim (js ''b 2.0'') \<noteq> []" by code_simp
  have l: "parseLine (js ''b 2.0'') = \<lparr>plugin_id = js ''b'', version = js ''2.0''\<rparr>"
    by code_simp
  from parsePluginList_invariant [of ?t] m
  have "trim (js ''b 2.0'') \<noteq> [] \<and> plugin_id (parseLine (js ''b 2.0'')) \<noteq> [] \<and>
      plugin_id (parseLine (js ''b 2.0'')) \<noteq> js ''undefined'' \<longrightarrow>
      parseLine (js ''b 2.0'') \<in> set (parsePluginList ?t)"
    by blast
  with k v have "parseLine (js ''b 2.0'') \<in> set (parsePluginList ?t)" unfolding l by blast
  with e v m show ?thesis by simp
qed

section \<open>The session: properties\<close>

text \<open>
  C6. When the project path does not exist, and when it exists without \<open>config.xml\<close>,
  \<open>checkPluginUpdates\<close> fails with an error of its own for each case, the two messages are
  different, and the process is left as it was: no subprocess has run. The session then
  prints the error, closes the prompt and exits with status 1, and these are its only
  actions after the opening line.
\<close>

theorem preconditions_fatal:
  "(\<not> existsSync env projectPath \<longrightarrow>
      checkPluginUpdates env projectPath p
        = (Inl (rethrow (missingPathMessage projectPath)), p)) \<and>
   (existsSync env projectPath \<and>
    \<not> existsSync env (path_join env projectPath (js ''config.xml'')) \<longrightarrow>
      checkPluginUpdates env projectPath p
        = (Inl (rethrow (missingManifestMessage projectPath)), p)) \<and>
   rethrow (missingPathMessage projectPath) \<noteq> rethrow (missingManifestMessage projectPath) \<and>
   (projectPath = targetPath env p0 \<longrightarrow>
      (\<not> existsSync env projectPath \<longrightarrow>
         added p0 (checkUpdates env p0)
           = [Log (js ''Checking plugins in project: '' @ projectPath),
              LogError (fatalReport (rethrow (missingPathMessage projectPath))),
              Close, Exit 1]) \<and>
      (existsSync env projectPath \<and>
       \<not> existsSync env (path_join env projectPath (js ''config.xml'')) \<longrightarrow>
         added p0 (checkUpdates env p0)
           = [Log (js ''Checking plugins in project: '' @ projectPath),
              LogError (fatalReport (rethrow (missingManifestMessage projectPath))),
              Close, Exit 1]))"
proof (intro conjI impI)
  assume "\<not> existsSync env projectPath"
  then show "checkPluginUpdates env projectPath p
        = (Inl (rethrow (missingPathMessage projectPath)), p)"
    by (rule checkPluginUpdates_missing_path)
next
  assume "existsSync env projectPath \<and>
    \<not> existsSync env (path_join env projectPath (js ''config.xml''))"
  then show "checkPluginUpdates env projectPath p
        = (Inl (rethrow (missingManifestMessage projectPath)), p)"
    by (simp add: checkPluginUpdates_missing_manifest)
next
  show "rethrow (missingPathMessage projectPath) \<noteq> rethrow (missingManifestMessage projectPath)"
    by (rule messages_distinct)
next
  assume path: "projectPath = targetPath env p0" and "\<not> existsSync env projectPath"
  then have "checkUpdates env p0
      = emit (Exit 1) (emit Close (console_error
          (fatalReport (rethrow (missingPathMessage projectPath)))
          (console_log (js ''Checking plugins in project: '' @ projectPath) p0)))"
    by (simp add: checkUpdates_fatal checkPluginUpdates_missing_path)
  then show "added p0 (checkUpdates env p0)
           = [Log (js ''Checking plugins in project: '' @ projectPath),
              LogError (fatalReport (rethrow (missingPathMessage projectPath))),
              Close, Exit 1]"
    by (simp add: added_def console_log_def console_error_def)
next
  assume path: "projectPath = targetPath env p0"
    and "existsSync env projectPath \<and>
       \<not> existsSync env (path_join env projectPath (js ''config.xml''))"
  then have "checkUpdates env p0
      = emit (Exit 1) (emit Close (console_error
          (fatalReport (rethrow (missingManifestMessage projectPath)))
          (console_log (js ''Checking plugins in project: '' @ projectPath) p0)))"
    by (simp add: checkUpdates_fatal checkPluginUpdates_missing_manifest)
  then show "added p0 (checkUpdates env p0)
           = [Log (js ''Checking plugins in project: '' @ projectPath),
              LogError (fatalReport (rethrow (missingManifestMessage projectPath))),
              Close, Exit 1]"
    by (simp add: added_def console_log_def console_error_def)
qed

theorem preconditions_fatal_witness:
  "\<not> existsSync env_no_path (js ''/app'') \<and>
   added process0 (checkUpdates env_no_path process0)
     = [Log (js ''Checking plugins in project: /app''),
        LogError (fatalReport (rethrow (missingPathMessage (js ''/app'')))), Close, Exit 1] \<and>
   existsSync env_no_manifest (js ''/app'') \<and>
   \<not> existsSync env_no_manifest (path_join env_no_manifest (js ''/app'') (js ''config.xml'')) \<and>
   added process0 (checkUpdates env_no_manifest process0)
     = [Log (js ''Checking plugins in project: /app''),
        LogError (fatalReport (rethrow (missingManifestMessage (js ''/app'')))), Close, Exit 1]"
proof -
  have t1: "js ''/app'' = targetPath env_no_path process0"
    by (simp add: targetPath_def env_no_path_def env_failing_def js_def)
  have t2: "js ''/app'' = targetPath env_no_manifest process0"
    by (simp add: targetPath_def env_no_manifest_def env_failing_def js_def)
  have h1: "\<not> existsSync env_no_path (js ''/app'')"
    by (simp add: env_no_path_def)
  have h2: "existsSync env_no_manifest (js ''/app'') \<and>
    \<not> existsSync env_no_manifest (path_join env_no_manifest (js ''/app'') (js ''config.xml''))"
    by (simp add: env_no_manifest_def env_failing_def js_def)
  have m: "js ''Checking plugins in project: '' @ js ''/app'' = js ''Checking plugins in project: /app''"
    by (simp add: js_def)
  from preconditions_fatal [of env_no_path "js ''/app''" process0 process0] t1 h1
  have "added process0 (checkUpdates env_no_path process0)
     = [Log (js ''Checking plugins in project: /app''),
        LogError (fatalReport (rethrow (missingPathMessage (js ''/app'')))), Close, Exit 1]"
    unfolding m by blast
  moreover from preconditions_fatal [of env_no_manifest "js ''/app''" process0 process0] t2 h2
  have "added process0 (checkUpdates env_no_manifest process0)
     = [Log (js ''Checking plugins in project: /app''),
        LogError (fatalReport (rethrow (missingManifestMessage (js ''/app'')))), Close, Exit 1]"
    unfolding m by blast
  ultimately show ?thesis using h1 h2 by simp
qed


text \<open>
  C7. On the plugins that \<open>parsePluginList\<close> returns, the loop of the update checker runs one
  registry lookup per plugin, in the order of the list, and returns one result per plugin in
  the same order: the result of plugin \<open>i\<close> is the one for the outcome of lookup \<open>i\<close>, and
  when that lookup failed it holds the plugin id, the current version and the error message,
  with neither \<open>latestVersion\<close> nor \<open>hasUpdate\<close>. A failed lookup stops nothing. These
  results are what \<open>checkPluginUpdates\<close> returns when the preconditions hold and the listing
  succeeds.
\<close>

theorem checkEach_one_result_each:
  assumes "plugins = parsePluginList output"
    and "xs = execs (added p (snd (checkEach env plugins [] p)))"
    and "results = fst (checkEach env plugins [] p)"
  shows "length results = length plugins \<and>
     map fst xs = map (\<lambda>pl. viewCommand (plugin_id pl)) plugins \<and>
     (\<forall>i<length plugins.
        results ! i = result_for (plugins ! i) (snd (xs ! i)) \<and>
        (\<not> resolved (snd (xs ! i)) \<longrightarrow>
           results ! i = \<lparr>plugin = plugin_id (plugins ! i), currentVersion = version (plugins ! i),
                           latestVersion = None, hasUpdate = None,
                           error = Some (js ''Failed to check for updates'')\<rparr>)) \<and>
     (existsSync env projectPath \<and>
      existsSync env (path_join env projectPath (js ''config.xml'')) \<and>
      subprocess env (chdir projectPath p0) (js ''cordova plugin list'') = Resolved output \<and>
      p = emit (Exec (js ''cordova plugin list'') projectPath (Resolved output))
            (chdir projectPath p0) \<longrightarrow>
        fst (checkPluginUpdates env projectPath p0) = Inr results)"
proof -
  have "\<forall>pl\<in>set plugins. plugin_id pl \<noteq> [] \<and> plugin_id pl \<noteq> js ''undefined''"
    unfolding assms(1) by (rule parsePluginList_valid)
  from checkEach_trace [OF this, of env "[]" p] obtain t where
    t: "events (snd (checkEach env plugins [] p)) = events p @ t"
       "map fst (execs t) = map (\<lambda>pl. viewCommand (plugin_id pl)) plugins"
       "fst (checkEach env plugins [] p)
          = map (\<lambda>(pl, x). result_for pl (snd x)) (zip plugins (execs t))"
    by auto
  from t(1) have xs: "xs = execs t" unfolding assms(2) by (simp add: added_append)
  from t(2) have len: "length xs = length plugins"
    unfolding xs using length_map by metis
  have res: "results = map (\<lambda>(pl, x). result_for pl (snd x)) (zip plugins xs)"
    unfolding assms(3) xs by (rule t(3))
  have nth: "results ! i = result_for (plugins ! i) (snd (xs ! i))" if "i < length plugins" for i
    using that len unfolding res by simp
  have err: "result_for pl r = \<lparr>plugin = plugin_id pl, currentVersion = version pl,
                           latestVersion = None, hasUpdate = None,
                           error = Some (js ''Failed to check for updates'')\<rparr>"
    if "\<not> resolved r" for pl r
    using that by (cases r) (simp_all add: resolved_def result_for_def)
  have whole: "fst (checkPluginUpdates env projectPath p0) = Inr results"
    if "existsSync env projectPath \<and>
      existsSync env (path_join env projectPath (js ''config.xml'')) \<and>
      subprocess env (chdir projectPath p0) (js ''cordova plugin list'') = Resolved output \<and>
      p = emit (Exec (js ''cordova plugin list'') projectPath (Resolved output))
            (chdir projectPath p0)"
    using that unfolding assms(3) assms(1)
    by (simp add: checkPluginUpdates_def execPromise_def chdir_def Let_def split: prod.splits)
  from len have "length results = length plugins" unfolding res by simp
  moreover from t(2) have "map fst xs = map (\<lambda>pl. viewCommand (plugin_id pl)) plugins"
    unfolding xs .
  ultimately show ?thesis using nth err whole by auto
qed

theorem checkEach_one_result_each_witness:
  "parsePluginList (js ''a 1.0.0'' @ 0x0A # js ''b 2.0.0'')
     = [\<lparr>plugin_id = js ''a'', version = js ''1.0.0''\<rparr>,
        \<lparr>plugin_id = js ''b'', version = js ''2.0.0''\<rparr>] \<and>
   fst (checkEach env_lookup (parsePluginList (js ''a 1.0.0'' @ 0x0A # js ''b 2.0.0'')) [] process0)
     = [\<lparr>plugin = js ''a'', currentVersion = js ''1.0.0'', latestVersion = None,
         hasUpdate = None, error = Some (js ''Failed to check for updates'')\<rparr>,
        \<lparr>plugin = js ''b'', currentVersion = js ''2.0.0'', latestVersion = Some (js ''2.0.1''),
         hasUpdate = Some True, error = None\<rparr>]"
proof -
  define plugins where "plugins = parsePluginList (js ''a 1.0.0'' @ 0x0A # js ''b 2.0.0'')"
  define xs where "xs = execs (added process0 (snd (checkEach env_lookup plugins [] process0)))"
  define results where "results = fst (checkEach env_lookup plugins [] process0)"
  have pl: "plugins = [\<lparr>plugin_id = js ''a'', version = js ''1.0.0''\<rparr>,
        \<lparr>plugin_id = js ''b'', version = js ''2.0.0''\<rparr>]"
    unfolding plugins_def by code_simp
  have x: "xs = [(js ''npm view a version'', Rejected (js ''boom'')),
                 (js ''npm view b version'', Resolved (js ''2.0.1''))]"
    unfolding xs_def plugins_def by code_simp
  have r1: "result_for \<lparr>plugin_id = js ''b'', version = js ''2.0.0''\<rparr> (Resolved (js ''2.0.1''))
     = \<lparr>plugin = js ''b'', currentVersion = js ''2.0.0'', latestVersion = Some (js ''2.0.1''),
         hasUpdate = Some True, error = None\<rparr>"
    by code_simp
  from checkEach_one_result_each [OF plugins_def xs_def results_def]
  have len: "length results = length plugins"
    and nth: "\<forall>i<length plugins.
        results ! i = result_for (plugins ! i) (snd (xs ! i)) \<and>
        (\<not> resolved (snd (xs ! i)) \<longrightarrow>
           results ! i = \<lparr>plugin = plugin_id (plugins ! i), currentVersion = version (plugins ! i),
                           latestVersion = None, hasUpdate = None,
                           error = Some (js ''Failed to check for updates'')\<rparr>)"
    by blast+
  from len have l2: "length results = 2" unfolding pl by simp
  have "(0::nat) < length plugins" "(1::nat) < length plugins" unfolding pl by simp_all
  with nth have n0: "\<not> resolved (snd (xs ! 0)) \<longrightarrow>
           results ! 0 = \<lparr>plugin = plugin_id (plugins ! 0), currentVersion = version (plugins ! 0),
                           latestVersion = None, hasUpdate = None,
                           error = Some (js ''Failed to check for updates'')\<rparr>"
    and n1: "results ! 1 = result_for (plugins ! 1) (snd (xs ! 1))"
    by blast+
  from n0 have e0: "results ! 0 = \<lparr>plugin = js ''a'', currentVersion = js ''1.0.0'',
         latestVersion = None, hasUpdate = None,
         error = Some (js ''Failed to check for updates'')\<rparr>"
    unfolding x pl by (simp add: resolved_def)
  from n1 have e1: "results ! 1 = \<lparr>plugin = js ''b'', currentVersion = js ''2.0.0'',
         latestVersion = Some (js ''2.0.1''), hasUpdate = Some True, error = None\<rparr>"
    unfolding x pl by (simp add: r1)
  from l2 obtain a b where ab: "results = [a, b]"
    by (cases results; cases "tl results") auto
  with e0 e1 have "results = [\<lparr>plugin = js ''a'', currentVersion = js ''1.0.0'', latestVersion = None,
         hasUpdate = None, error = Some (js ''Failed to check for updates'')\<rparr>,
        \<lparr>plugin = js ''b'', currentVersion = js ''2.0.0'', latestVersion = Some (js ''2.0.1''),
         hasUpdate = Some True, error = None\<rparr>]"
    by simp
  with pl show ?thesis unfolding results_def plugins_def by simp
qed

text \<open>
  C8. The prompt loop asks one question per result, in order, whatever the updates before it
  did; the question is \<open>Do you want to update\<close>, the plugin, \<open>from\<close>, its current version,
  \<open>to\<close>, its latest version and \<open>? (y/n):\<close>, so that it mentions the three. After an answer
  \<open>y\<close> or \<open>Y\<close> the subprocesses up to the next question are the forcible remove of that
  plugin followed, when the remove succeeded, by the add of its id; after any other answer
  nothing happens before the next question. The loop runs no other subprocess.
\<close>

theorem promptEach_prompts_each:
  "list_all2 prompt_block pluginsToUpdate (blocks (added p (promptEach env pluginsToUpdate p))) \<and>
   map fst (blocks (added p (promptEach env pluginsToUpdate p)))
     = map questionText pluginsToUpdate \<and>
   execs (added p (promptEach env pluginsToUpdate p))
     = concat (map (\<lambda>(query, answer, u). execs u)
         (blocks (added p (promptEach env pluginsToUpdate p))))"
proof -
  from promptEach_trace [of env pluginsToUpdate p] obtain t where
    t: "events (promptEach env pluginsToUpdate p) = events p @ t"
       "list_all2 prompt_block pluginsToUpdate (blocks t)" "t = [] \<or> is_question (hd t)" by blast
  from t(1) have a: "added p (promptEach env pluginsToUpdate p) = t" by (rule added_append)
  from t(2) have "map questionText pluginsToUpdate = map fst (blocks t)"
    by (induction rule: list_all2_induct) (auto simp: prompt_block_def)
  moreover from t(3) have "execs t = concat (map (\<lambda>(query, answer, u). execs u) (blocks t))"
    by (rule execs_blocks)
  ultimately show ?thesis using t(2) unfolding a by simp
qed

theorem promptEach_prompts_each_witness:
  "map fst (blocks (added process0 (promptEach env_failing [result_a, result_b] process0)))
     = [0x0A # js ''Do you want to update a from 1.0.0 to 1.0.1? (y/n): '',
        0x0A # js ''Do you want to update b from 2.0.0 to 2.0.1? (y/n): ''] \<and>
   affirmative (js ''Y'') \<and>
   (\<exists>query u. blocks (added process0 (promptEach env_failing [result_a, result_b] process0)) ! 0
                 = (query, js ''Y'', u) \<and> mentions query (js ''a'') \<and>
                 mentions query (js ''1.0.0'') \<and> mentions query (js ''1.0.1'') \<and>
                 update_execs (js ''a'') (execs u)) \<and>
   \<not> affirmative (js ''n'') \<and>
   (\<exists>query. blocks (added process0 (promptEach env_declining [result_a, result_b] process0)) ! 0
               = (query, js ''n'', []))"
proof -
  define t where "t = added process0 (promptEach env_failing [result_a, result_b] process0)"
  define t' where "t' = added process0 (promptEach env_declining [result_a, result_b] process0)"
  from promptEach_prompts_each [of "[result_a, result_b]" process0 env_failing]
  have all: "list_all2 prompt_block [result_a, result_b] (blocks t)"
    and qs: "map fst (blocks t) = map questionText [result_a, result_b]"
    unfolding t_def by blast+
  from promptEach_prompts_each [of "[result_a, result_b]" process0 env_declining]
  have all': "list_all2 prompt_block [result_a, result_b] (blocks t')"
    unfolding t'_def by blast
  have qa: "questionText result_a = 0x0A # js ''Do you want to update a from 1.0.0 to 1.0.1? (y/n): ''"
    by (simp add: questionText_def result_a_def js_def)
  have qb: "questionText result_b = 0x0A # js ''Do you want to update b from 2.0.0 to 2.0.1? (y/n): ''"
    by (simp add: questionText_def result_b_def js_def)
  have y: "affirmative (js ''Y'')" by (simp add: affirmative_def)
  have n: "\<not> affirmative (js ''n'')" by (simp add: affirmative_def js_def)
  obtain query answer u where b: "blocks t ! 0 = (query, answer, u)"
    by (cases "blocks t ! 0") auto
  have "fst (snd (blocks t ! 0)) = js ''Y''" unfolding t_def by code_simp
  with b have a: "answer = js ''Y''" by simp
  from all have "prompt_block ([result_a, result_b] ! 0) (blocks t ! 0)"
    by (rule list_all2_nthD) simp
  with b a y have pb: "mentions query (plugin result_a)" "mentions query (currentVersion result_a)"
    "\<forall>v. latestVersion result_a = Some v \<longrightarrow> mentions query v"
    "update_execs (plugin result_a) (execs u)"
    by (auto simp: prompt_block_def)
  have lv: "latestVersion result_a = Some (js ''1.0.1'')" by (simp add: result_a_def)
  with pb(3) have m3: "mentions query (js ''1.0.1'')" by blast
  from pb(1,2,4) have m12: "mentions query (js ''a'')" "mentions query (js ''1.0.0'')"
    "update_execs (js ''a'') (execs u)"
    by (simp_all add: result_a_def)
  obtain query' answer' u' where b': "blocks t' ! 0 = (query', answer', u')"
    by (cases "blocks t' ! 0") auto
  have "fst (snd (blocks t' ! 0)) = js ''n''" unfolding t'_def by code_simp
  with b' have a': "answer' = js ''n''" by simp
  from all' have "prompt_block ([result_a, result_b] ! 0) (blocks t' ! 0)"
    by (rule list_all2_nthD) simp
  with b' a' n have 2: "u' = []"
    by (simp add: prompt_block_def)
  from b a m12 m3 have "\<exists>query u. blocks t ! 0 = (query, js ''Y'', u) \<and> mentions query (js ''a'') \<and>
      mentions query (js ''1.0.0'') \<and> mentions query (js ''1.0.1'') \<and>
      update_execs (js ''a'') (execs u)"
    by blast
  moreover from b' a' 2 have "\<exists>query. blocks t' ! 0 = (query, js ''n'', [])" by blast
  moreover from qs have "map fst (blocks t) = [questionText result_a, questionText result_b]"
    by simp
  then have "map fst (blocks t)
     = [0x0A # js ''Do you want to update a from 1.0.0 to 1.0.1? (y/n): '',
        0x0A # js ''Do you want to update b from 2.0.0 to 2.0.1? (y/n): '']"
    by (simp only: qa qb)
  ultimately show ?thesis using y n unfolding t_def t'_def by simp
qed

text \<open>
  C9. When the two preconditions hold, \<open>checkPluginUpdates\<close> changes the working directory
  to the project path before it starts the plugin listing, every subprocess runs there, and
  the working directory is still the project path when the check returns, whatever its
  result, and when the session ends.
\<close>

theorem chdir_not_restored:
  assumes "existsSync env projectPath"
    and "existsSync env (path_join env projectPath (js ''config.xml''))"
  shows "cwd (snd (checkPluginUpdates env projectPath p)) = projectPath \<and>
     (\<exists>r t. added p (snd (checkPluginUpdates env projectPath p))
               = Exec (js ''cordova plugin list'') projectPath r # t \<and>
             set (exec_dirs t) \<subseteq> {projectPath}) \<and>
     (projectPath = targetPath env p0 \<longrightarrow>
        cwd (checkUpdates env p0) = projectPath \<and>
        set (exec_dirs (added p0 (checkUpdates env p0))) \<subseteq> {projectPath})"
proof (intro conjI impI)
  from checkPluginUpdates_listing [OF assms, of p] obtain r t where
    l: "events (snd (checkPluginUpdates env projectPath p))
          = events p @ Exec (js ''cordova plugin list'') projectPath r # t"
       "cwd (snd (checkPluginUpdates env projectPath p)) = projectPath"
       "set (exec_dirs t) \<subseteq> {projectPath}" by blast
  from l(2) show "cwd (snd (checkPluginUpdates env projectPath p)) = projectPath" .
  from l(1) have "added p (snd (checkPluginUpdates env projectPath p))
               = Exec (js ''cordova plugin list'') projectPath r # t"
    by (rule added_append)
  with l(3) show "\<exists>r t. added p (snd (checkPluginUpdates env projectPath p))
               = Exec (js ''cordova plugin list'') projectPath r # t \<and>
             set (exec_dirs t) \<subseteq> {projectPath}" by blast
next
  assume path: "projectPath = targetPath env p0"
  from checkUpdates_cwd [of env p0] assms path obtain t where
    c: "cwd (checkUpdates env p0) = projectPath" "events (checkUpdates env p0) = events p0 @ t"
       "set (exec_dirs t) \<subseteq> {projectPath}" by auto
  from c(1) show "cwd (checkUpdates env p0) = projectPath" .
  from c(2) have "added p0 (checkUpdates env p0) = t" by (rule added_append)
  with c(3) show "set (exec_dirs (added p0 (checkUpdates env p0))) \<subseteq> {projectPath}" by simp
qed

theorem chdir_not_restored_witness:
  "existsSync env_failing (js ''/app'') \<and>
   existsSync env_failing (path_join env_failing (js ''/app'') (js ''config.xml'')) \<and>
   cwd process0 = js ''/home'' \<and> cwd (checkUpdates env_failing process0) = js ''/app''"
proof -
  have h: "existsSync env_failing (js ''/app'')"
    "existsSync env_failing (path_join env_failing (js ''/app'') (js ''config.xml''))"
    by (simp_all add: env_failing_def)
  have t: "js ''/app'' = targetPath env_failing process0"
    by (simp add: targetPath_def env_failing_def js_def)
  from chdir_not_restored [OF h, of process0 process0] t
  have "cwd (checkUpdates env_failing process0) = js ''/app''" by blast
  with h show ?thesis by (simp add: process0_def)
qed


text \<open>
  C10. \<open>updatePlugin\<close> runs the forcible remove first and the add only after a remove that
  succeeded; it returns true exactly when both subprocesses succeeded, and when it returns
  false the last thing it did was to log the failure.
\<close>

theorem updatePlugin_remove_then_add:
  "update_execs pluginId (execs (added p (snd (updatePlugin env pluginId p)))) \<and>
   (fst (updatePlugin env pluginId p) \<longleftrightarrow>
      map (resolved \<circ> snd) (execs (added p (snd (updatePlugin env pluginId p)))) = [True, True]) \<and>
   (\<not> fst (updatePlugin env pluginId p) \<longrightarrow>
      is_error_log (last (added p (snd (updatePlugin env pluginId p)))))"
proof (cases rule: updatePlugin_cases [of env pluginId p])
  case (remove_failed message)
  then show ?thesis
    by (simp add: added_def update_execs_def resolved_def is_error_log_def)
next
  case (add_failed out message)
  then show ?thesis
    by (simp add: added_def update_execs_def resolved_def is_error_log_def)
next
  case (updated out out')
  then show ?thesis
    by (simp add: added_def update_execs_def resolved_def is_error_log_def)
qed


theorem updatePlugin_remove_then_add_witness:
  "\<not> fst (updatePlugin env_failing (js ''a'') process0) \<and>
   is_error_log (last (added process0 (snd (updatePlugin env_failing (js ''a'') process0)))) \<and>
   execs (added process0 (snd (updatePlugin env_failing (js ''a'') process0)))
     = [(js ''cordova plugin remove a --force'', Rejected (js ''boom''))]"
proof -
  have f: "\<not> fst (updatePlugin env_failing (js ''a'') process0)"
    by (simp add: updatePlugin_def env_failing_def execPromise_def Let_def)
  have e: "execs (added process0 (snd (updatePlugin env_failing (js ''a'') process0)))
     = [(js ''cordova plugin remove a --force'', Rejected (js ''boom''))]"
    by (simp add: updatePlugin_def env_failing_def execPromise_def Let_def process0_def
        console_log_def console_error_def added_def js_def)
  from updatePlugin_remove_then_add [of "js ''a''" process0 env_failing] f e
  show ?thesis by blast
qed

end
